theory Spec2Isabelle
  imports Complex_Main "HOL-Library.Word"
begin

section \<open>Buffers and the WAV header (backend-node/utils.js, createWavHeader)\<close>

text \<open>
  A Node.js \<open>Buffer\<close> is a sequence of bytes. JavaScript numbers are modelled as exact
  rationals: every number the header code computes from integer arguments below \<open>2^53\<close>
  is exact in double precision as well.
\<close>

type_synonym byte = "8 word"
type_synonym buffer = "byte list"

text \<open>
  The exceptions the modelled code can meet: a range check of \<open>Buffer\<close> (Node's
  \<open>ERR_OUT_OF_RANGE\<close>, with the name of the offending argument and the value received),
  a string that would be longer than the runtime allows (\<open>ERR_STRING_TOO_LONG\<close>), a
  property read on \<open>null\<close> or \<open>undefined\<close>, and any other exception thrown by the runtime
  or by a library function that is taken as a parameter (with its message).
\<close>

datatype js_error =
    ERR_OUT_OF_RANGE string rat
  | ERR_STRING_TOO_LONG
  | TypeError_property string
  | Thrown string

text \<open>Sequencing of calls that may throw: the first exception ends the computation.\<close>

definition seq :: "js_error + 'a \<Rightarrow> ('a \<Rightarrow> js_error + 'b) \<Rightarrow> js_error + 'b" where
  "seq r f = (case r of Inl e \<Rightarrow> Inl e | Inr x \<Rightarrow> f x)"

definition Buffer_alloc :: "nat \<Rightarrow> buffer" where
  "Buffer_alloc n = replicate n 0"

text \<open>
  \<open>buf.write(string, offset)\<close>: the bytes of the string are stored from \<open>offset\<close> on, as
  many as fit; an offset beyond the end of the buffer is a range error.
\<close>

definition Buffer_write :: "buffer \<Rightarrow> string \<Rightarrow> nat \<Rightarrow> js_error + buffer" where
  "Buffer_write buf s offset =
     (if offset > length buf then Inl (ERR_OUT_OF_RANGE ''offset'' (of_nat offset))
      else let bs = take (length buf - offset) (map of_char s)
           in Inr (take offset buf @ bs @ drop (offset + length bs) buf))"

text \<open>
  \<open>buf.writeUInt32LE(value, offset)\<close> and \<open>buf.writeUInt16LE(value, offset)\<close>: Node first
  checks \<open>value > max || value < min\<close>, then that the bytes fit at \<open>offset\<close>, and then
  stores the integer part of the value byte by byte, lowest byte first
  (\<open>buf[offset++] = value; value = value >>> 8; ...\<close>).
\<close>

definition writeUInt32LE :: "buffer \<Rightarrow> rat \<Rightarrow> nat \<Rightarrow> js_error + buffer" where
  "writeUInt32LE buf val offset =
     (if val > 4294967295 \<or> val < 0 then Inl (ERR_OUT_OF_RANGE ''value'' val)
      else if offset + 4 > length buf then Inl (ERR_OUT_OF_RANGE ''offset'' (of_nat offset))
      else let v = nat \<lfloor>val\<rfloor>
           in Inr (take offset buf
                   @ [of_nat v, of_nat (v div 2 ^ 8), of_nat (v div 2 ^ 16), of_nat (v div 2 ^ 24)]
                   @ drop (offset + 4) buf))"

definition writeUInt16LE :: "buffer \<Rightarrow> rat \<Rightarrow> nat \<Rightarrow> js_error + buffer" where
  "writeUInt16LE buf val offset =
     (if val > 65535 \<or> val < 0 then Inl (ERR_OUT_OF_RANGE ''value'' val)
      else if offset + 2 > length buf then Inl (ERR_OUT_OF_RANGE ''offset'' (of_nat offset))
      else let v = nat \<lfloor>val\<rfloor>
           in Inr (take offset buf @ [of_nat v, of_nat (v div 2 ^ 8)] @ drop (offset + 2) buf))"

definition createWavHeader :: "rat \<Rightarrow> rat \<Rightarrow> rat \<Rightarrow> rat \<Rightarrow> js_error + buffer" where
  "createWavHeader pcmDataLength sampleRate bitsPerSample numChannels =
     (let bytesPerSample = bitsPerSample / 8;
          blockAlign = numChannels * bytesPerSample;
          byteRate = sampleRate * blockAlign;
          riffChunkSize = pcmDataLength + 36;
          header = Buffer_alloc 44
      in seq (Buffer_write header ''RIFF'' 0) (\<lambda>header.
         seq (writeUInt32LE header riffChunkSize 4) (\<lambda>header.
         seq (Buffer_write header ''WAVE'' 8) (\<lambda>header.
         seq (Buffer_write header ''fmt '' 12) (\<lambda>header.
         seq (writeUInt32LE header 16 16) (\<lambda>header.
         seq (writeUInt16LE header 1 20) (\<lambda>header.
         seq (writeUInt16LE header numChannels 22) (\<lambda>header.
         seq (writeUInt32LE header sampleRate 24) (\<lambda>header.
         seq (writeUInt32LE header byteRate 28) (\<lambda>header.
         seq (writeUInt16LE header blockAlign 32) (\<lambda>header.
         seq (writeUInt16LE header bitsPerSample 34) (\<lambda>header.
         seq (Buffer_write header ''data'' 36) (\<lambda>header.
         seq (writeUInt32LE header pcmDataLength 40) (\<lambda>header.
         Inr header))))))))))))))"

text \<open>
  Reading a header field back: the unsigned little-endian value of the two or four bytes
  at an offset (what \<open>readUInt16LE\<close> and \<open>readUInt32LE\<close> return inside the buffer).
\<close>

definition u16_at :: "buffer \<Rightarrow> nat \<Rightarrow> nat" where
  "u16_at buf offset = unat (buf ! offset) + unat (buf ! (offset + 1)) * 2 ^ 8"

definition u32_at :: "buffer \<Rightarrow> nat \<Rightarrow> nat" where
  "u32_at buf offset =
     unat (buf ! offset) + unat (buf ! (offset + 1)) * 2 ^ 8
     + unat (buf ! (offset + 2)) * 2 ^ 16 + unat (buf ! (offset + 3)) * 2 ^ 24"

text \<open>The four bytes of an unsigned 32-bit value, lowest byte first.\<close>

definition le32 :: "nat \<Rightarrow> buffer" where
  "le32 v = [of_nat v, of_nat (v div 2 ^ 8), of_nat (v div 2 ^ 16), of_nat (v div 2 ^ 24)]"

text \<open>
  The header of a 24 kHz, 16-bit, mono clip with \<open>L\<close> payload bytes, byte by byte:
  \<open>RIFF\<close>, the chunk size, \<open>WAVE\<close>, \<open>fmt \<close>, the sub-chunk size 16, the format code 1,
  one channel, 24000 Hz (\<open>0x5DC0\<close>), the byte rate 48000 (\<open>0xBB80\<close>), the block align 2,
  16 bits per sample, \<open>data\<close> and the payload length.
\<close>

definition wav_header_24k_mono :: "nat \<Rightarrow> buffer" where
  "wav_header_24k_mono L =
     [82, 73, 70, 70] @ le32 (L + 36) @ [87, 65, 86, 69] @ [102, 109, 116, 32]
     @ [16, 0, 0, 0] @ [1, 0] @ [1, 0] @ [192, 93, 0, 0] @ [128, 187, 0, 0] @ [2, 0] @ [16, 0]
     @ [100, 97, 116, 97] @ le32 L"



section \<open>JSON values and the library functions taken as parameters\<close>

text \<open>
  A value as \<open>JSON.parse\<close> returns it. An object is the list of its properties in
  enumeration order.
\<close>

datatype json =
    JNull
  | JBool bool
  | JNum rat
  | JStr string
  | JArr "json list"
  | JObj "(string \<times> json) list"

text \<open>
  Reading a property \<open>v.k\<close>, for the keys the handlers read (\<open>type\<close>, \<open>message\<close>,
  \<open>audioData\<close>): \<open>null\<close> throws a TypeError, an object yields the property or
  \<open>undefined\<close> (\<open>None\<close>), and an array, string, number or boolean has none of these keys.
\<close>

fun get_prop :: "json \<Rightarrow> string \<Rightarrow> js_error + json option" where
  "get_prop JNull k = Inl (TypeError_property k)"
| "get_prop (JObj kvs) k = Inr (map_of kvs k)"
| "get_prop v k = Inr None"

text \<open>JavaScript truthiness of a property value (\<open>None\<close> is \<open>undefined\<close>).\<close>

fun truthy :: "json option \<Rightarrow> bool" where
  "truthy None = False"
| "truthy (Some JNull) = False"
| "truthy (Some (JBool b)) = b"
| "truthy (Some (JNum n)) = (n \<noteq> 0)"
| "truthy (Some (JStr s)) = (s \<noteq> [])"
| "truthy (Some (JArr vs)) = True"
| "truthy (Some (JObj kvs)) = True"

text \<open>
  The library functions whose results the handlers depend on are parameters of the model:
  \<open>JSON.parse\<close> on the raw frame, \<open>Buffer.from(x, 'base64')\<close> on the \<open>audioData\<close> property
  and \<open>createUserContent\<close> of the Gemini SDK on the \<open>message\<close> property. Each either
  throws or returns.
\<close>

record node_lib =
  JSON_parse :: "string \<Rightarrow> js_error + json"
  Buffer_from_base64 :: "json option \<Rightarrow> js_error + buffer"
  createUserContent :: "json option \<Rightarrow> js_error + json"

section \<open>Connection state and effects (backend-node/utils.js)\<close>

type_synonym ws = nat
type_synonym session = nat
type_synonym handle = nat

text \<open>
  The per-connection record that the connection handler stores in \<open>clientStateMap\<close>.
  A handle that is \<open>null\<close> is \<open>None\<close>.
\<close>

record clientState =
  audioBuffer :: buffer
  mimeType :: string
  ffmpegInputStream :: "handle option"
  ffmpegProcess :: "handle option"
  pcmOutputStream :: "handle option"
  isSendingAudioToGemini :: bool
  firstGeminiResponseReceived :: bool

text \<open>
  A message sent to the client, before \<open>JSON.stringify\<close>:
  \<open>{from:'gemini', type:'text', data}\<close>,
  \<open>{from:'gemini', type:'audio', data:{audio, mimeType}}\<close>,
  \<open>{from:'gemini', type:'turnComplete'}\<close> and
  \<open>{from:'backend', type:'error', data: prefix + (error.message || fallback)}\<close>.
\<close>

datatype out_msg =
    GeminiText string
  | GeminiAudio string string
  | GeminiTurnComplete
  | BackendError string js_error string

text \<open>
  The calls a handler makes on the outside world, in the order it makes them:
  \<open>process.kill(h.pid, 'SIGKILL')\<close> on the object \<open>h\<close> that \<open>ffmpegProcess\<close> holds (inside
  its \<open>try\<close>, so the call never propagates an exception; when \<open>h\<close> is a stream, \<open>h.pid\<close> is
  \<open>undefined\<close>, the call throws and no process is signalled), \<open>stream.destroy()\<close>,
  \<open>new PassThrough()\<close>, the start of an ffmpeg command (the first handle) that reads an
  input stream and is piped into an output stream, \<open>inputStream.end(blob)\<close>, \<open>ws.send\<close>,
  \<open>ws.close(code, reason)\<close>, \<open>ws.on(name, ...)\<close>, \<open>session.close()\<close> and
  \<open>session.sendClientContent({turns: [content], turnComplete})\<close>.
  Console output is not part of the model.
\<close>

datatype event =
    ProcessKill handle
  | StreamDestroy handle
  | NewPassThrough handle
  | FfmpegPipe handle handle handle
  | StreamEnd handle buffer
  | WsSend ws out_msg
  | WsClose ws nat string
  | WsOn ws string
  | SessionClose session
  | SendClientContent session json bool

definition stopAudioProcessing :: "clientState \<Rightarrow> clientState \<times> event list" where
  "stopAudioProcessing clientState =
     (clientState\<lparr>ffmpegProcess := None, ffmpegInputStream := None, pcmOutputStream := None,
                   isSendingAudioToGemini := False\<rparr>,
      (case ffmpegProcess clientState of Some p \<Rightarrow> [ProcessKill p] | None \<Rightarrow> [])
      @ (case ffmpegInputStream clientState of Some i \<Rightarrow> [StreamDestroy i] | None \<Rightarrow> [])
      @ (case pcmOutputStream clientState of Some out \<Rightarrow> [StreamDestroy out] | None \<Rightarrow> []))"

text \<open>
  The limits of the runtime and the outcome of \<open>ws.send\<close> are parameters:
  \<open>buffer.constants.MAX_LENGTH\<close>, the largest size of a \<open>Buffer\<close>;
  \<open>buffer.constants.MAX_STRING_LENGTH\<close>, the largest length of a string; and, for a socket
  and a message, the exception that \<open>ws.send\<close> throws, if it throws.
\<close>

record node_runtime =
  MAX_LENGTH :: nat
  MAX_STRING_LENGTH :: nat
  ws_send_throws :: "ws \<Rightarrow> out_msg \<Rightarrow> js_error option"









text \<open>
  The two maps of the server, the calls made so far and the next unused handle (every
  \<open>new PassThrough()\<close> and every ffmpeg command is a new object).
\<close>

record sys =
  geminiSessionMap :: "ws \<Rightarrow> session option"
  clientStateMap :: "ws \<Rightarrow> clientState option"
  trace :: "event list"
  next_handle :: nat

definition emit :: "event list \<Rightarrow> sys \<Rightarrow> sys" where
  "emit evs s = s\<lparr>trace := trace s @ evs\<rparr>"

definition cleanupClient :: "ws \<Rightarrow> sys \<Rightarrow> sys" where
  "cleanupClient w s =
     (let s1 = (case clientStateMap s w of
                  Some clientState \<Rightarrow>
                    (let (clientState', evs) = stopAudioProcessing clientState
                     in emit evs (s\<lparr>clientStateMap := (clientStateMap s)(w \<mapsto> clientState')\<rparr>))
                | None \<Rightarrow> s);
          s2 = (case geminiSessionMap s1 w of
                  Some session \<Rightarrow>
                    (emit [SessionClose session] s1)
                      \<lparr>geminiSessionMap := (geminiSessionMap s1)(w := None)\<rparr>
                | None \<Rightarrow> s1)
      in s2\<lparr>clientStateMap := (clientStateMap s2)(w := None)\<rparr>)"

text \<open>
  The two message handlers return the exception they end with, if any, next to the state
  they leave; \<open>handleWebSocketMessage\<close> catches it.
\<close>

definition handleTextMessage :: "node_lib \<Rightarrow> ws \<Rightarrow> json \<Rightarrow> sys \<Rightarrow> js_error option \<times> sys" where
  "handleTextMessage lib w frontendMessage s =
     (case clientStateMap s w of
        None \<Rightarrow> (Some (TypeError_property ''ffmpegProcess''), s)
      | Some clientState \<Rightarrow>
          (let (clientState', evs) = stopAudioProcessing clientState;
               s1 = emit evs (s\<lparr>clientStateMap := (clientStateMap s)(w \<mapsto> clientState')\<rparr>)
           in case get_prop frontendMessage ''message'' of
                Inl e \<Rightarrow> (Some e, s1)
              | Inr m \<Rightarrow>
                  (case createUserContent lib m of
                     Inl e \<Rightarrow> (Some e, s1)
                   | Inr content \<Rightarrow>
                       (case geminiSessionMap s1 w of
                          None \<Rightarrow> (Some (TypeError_property ''sendClientContent''), s1)
                        | Some currentSession \<Rightarrow>
                            (None, emit [SendClientContent currentSession content True] s1)))))"

text \<open>
  \<open>configureFFmpegProcess\<close> builds the ffmpeg command (a new object, the first argument
  here) that reads \<open>inputStream\<close>, and starts it with \<open>.pipe(pcmStream)\<close>, the last call of
  the chain. The value of that call, and so of the function, is the stream it was given,
  not the command.
\<close>

definition configureFFmpegProcess :: "handle \<Rightarrow> handle \<Rightarrow> handle \<Rightarrow> handle \<times> event list" where
  "configureFFmpegProcess command inputStream pcmStream =
     (pcmStream, [FfmpegPipe command inputStream pcmStream])"

definition handleAudioMessage :: "node_lib \<Rightarrow> ws \<Rightarrow> json \<Rightarrow> sys \<Rightarrow> js_error option \<times> sys" where
  "handleAudioMessage lib w frontendMessage s =
     (case get_prop frontendMessage ''audioData'' of
        Inl e \<Rightarrow> (Some e, s)
      | Inr audioData \<Rightarrow>
          (case Buffer_from_base64 lib audioData of
             Inl e \<Rightarrow> (Some e, s)
           | Inr audioBlob \<Rightarrow>
               (case clientStateMap s w of
                  None \<Rightarrow> (Some (TypeError_property ''ffmpegProcess''), s)
                | Some clientState \<Rightarrow>
                    (let (clientState1, evs) = stopAudioProcessing clientState;
                         clientState2 = clientState1\<lparr>firstGeminiResponseReceived := False,
                                                      audioBuffer := Buffer_alloc 0\<rparr>;
                         inputStream = next_handle s;
                         pcmStream = next_handle s + 1;
                         clientState3 = clientState2\<lparr>ffmpegInputStream := Some inputStream,
                                                      pcmOutputStream := Some pcmStream\<rparr>;
                         (piped, started) =
                           configureFFmpegProcess (next_handle s + 2) inputStream pcmStream;
                         clientState4 = clientState3\<lparr>ffmpegProcess := Some piped\<rparr>
                     in (None,
                         emit (evs @ [NewPassThrough inputStream, NewPassThrough pcmStream]
                               @ started @ [StreamEnd inputStream audioBlob])
                           (s\<lparr>clientStateMap := (clientStateMap s)(w \<mapsto> clientState4),
                              next_handle := next_handle s + 3\<rparr>))))))"

definition dispatch :: "node_lib \<Rightarrow> ws \<Rightarrow> string \<Rightarrow> sys \<Rightarrow> js_error option \<times> sys" where
  "dispatch lib w message s =
     (case JSON_parse lib message of
        Inl e \<Rightarrow> (Some e, s)
      | Inr frontendMessage \<Rightarrow>
          (case get_prop frontendMessage ''type'' of
             Inl e \<Rightarrow> (Some e, s)
           | Inr t \<Rightarrow>
               if t = Some (JStr ''text'') then handleTextMessage lib w frontendMessage s
               else if t = Some (JStr ''audio'')
                       \<and> (case get_prop frontendMessage ''audioData'' of
                             Inl e \<Rightarrow> False | Inr a \<Rightarrow> truthy a)
                    then handleAudioMessage lib w frontendMessage s
               else (None, s)))"

definition handleWebSocketMessage :: "node_lib \<Rightarrow> ws \<Rightarrow> string \<Rightarrow> sys \<Rightarrow> sys" where
  "handleWebSocketMessage lib w message s =
     (case geminiSessionMap s w of
        None \<Rightarrow> emit [WsClose w 1011 ''No active Gemini session''] s
      | Some currentSession \<Rightarrow>
          (case clientStateMap s w of
             None \<Rightarrow> emit [WsClose w 1011 ''No active client state''] s
           | Some clientState \<Rightarrow>
               (case dispatch lib w message s of
                  (Some error, s') \<Rightarrow>
                    emit [WsSend w (BackendError ''Backend error processing message: '' error
                                      ''Unknown error'')] s'
                | (None, s') \<Rightarrow> s')))"

definition handleWebSocketClose :: "ws \<Rightarrow> sys \<Rightarrow> sys" where
  "handleWebSocketClose w s = cleanupClient w s"

definition handleWebSocketError :: "ws \<Rightarrow> sys \<Rightarrow> sys" where
  "handleWebSocketError w s = cleanupClient w s"

definition handleGeminiError :: "ws \<Rightarrow> sys \<Rightarrow> sys" where
  "handleGeminiError w s = emit [WsClose w 1011 ''Gemini API Error''] s"

text \<open>
  The connection handler of the server that uses these handlers (\<open>handleNewConnection\<close>):
  it stores a new state, awaits \<open>ai.live.connect\<close>, whose outcome is a parameter, and
  either records the session and installs the three socket handlers or, in its \<open>catch\<close>,
  deletes the state and closes the socket.
\<close>

definition initialClientState :: clientState where
  "initialClientState =
     \<lparr>audioBuffer = Buffer_alloc 0, mimeType = '''', ffmpegInputStream = None,
      ffmpegProcess = None, pcmOutputStream = None, isSendingAudioToGemini = False,
      firstGeminiResponseReceived = False\<rparr>"

definition handleNewConnection :: "js_error + session \<Rightarrow> ws \<Rightarrow> sys \<Rightarrow> sys" where
  "handleNewConnection connect_result w s =
     (let s1 = s\<lparr>clientStateMap := (clientStateMap s)(w \<mapsto> initialClientState)\<rparr>
      in case connect_result of
           Inr session \<Rightarrow>
             emit [WsOn w ''message'', WsOn w ''close'', WsOn w ''error'']
               (s1\<lparr>geminiSessionMap := (geminiSessionMap s1)(w \<mapsto> session)\<rparr>)
         | Inl error \<Rightarrow>
             emit [WsClose w 1011 ''Backend connection error'']
               (s1\<lparr>clientStateMap := (clientStateMap s1)(w := None)\<rparr>))"

subsection \<open>The first server (backend-node/server.js)\<close>

text \<open>
  The stand-alone server keeps a map \<open>audioBuffers\<close> from sockets to
  \<open>{buffer, mimeType}\<close> next to its session map. Its connection handler has the same shape,
  and its \<open>onerror\<close> callback closes the socket.
\<close>

record server =
  audioBuffers :: "ws \<Rightarrow> (buffer \<times> string) option"
  sessions :: "ws \<Rightarrow> session option"
  calls :: "event list"

definition server_connection :: "js_error + session \<Rightarrow> ws \<Rightarrow> server \<Rightarrow> server" where
  "server_connection connect_result w s =
     (let s1 = s\<lparr>audioBuffers := (audioBuffers s)(w \<mapsto> (Buffer_alloc 0, ''''))\<rparr>
      in case connect_result of
           Inr session \<Rightarrow>
             s1\<lparr>sessions := (sessions s1)(w \<mapsto> session),
                calls := calls s1 @ [WsOn w ''message'', WsOn w ''close'', WsOn w ''error'']\<rparr>
         | Inl error \<Rightarrow>
             s1\<lparr>audioBuffers := (audioBuffers s1)(w := None),
                calls := calls s1 @ [WsClose w 1011 ''Backend connection error'']\<rparr>)"

definition server_onerror :: "ws \<Rightarrow> server \<Rightarrow> server" where
  "server_onerror w s = s\<lparr>calls := calls s @ [WsClose w 1011 ''Gemini API Error'']\<rparr>"

subsection \<open>Live pipeline resources\<close>

text \<open>
  Which ffmpeg commands and which streams are alive after a sequence of calls: a stream
  from its \<open>new PassThrough()\<close> to its \<open>destroy()\<close>, a command from the call that starts it
  to a \<open>process.kill\<close> on its handle (after which it is killed or, as the \<open>catch\<close> around
  the call says, had already finished). A \<open>process.kill\<close> on any other handle ends no
  command.
\<close>

fun live_step :: "handle set \<times> handle set \<Rightarrow> event \<Rightarrow> handle set \<times> handle set" where
  "live_step (ps, ss) (NewPassThrough h) = (ps, insert h ss)"
| "live_step (ps, ss) (FfmpegPipe p i out) = (insert p ps, ss)"
| "live_step (ps, ss) (ProcessKill p) = (ps - {p}, ss)"
| "live_step (ps, ss) (StreamDestroy h) = (ps, ss - {h})"
| "live_step (ps, ss) e = (ps, ss)"

definition live :: "event list \<Rightarrow> handle set \<times> handle set" where
  "live evs = foldl live_step ({}, {}) evs"

text \<open>At most one pipeline: at most one command and at most two streams.\<close>

definition one_pipeline :: "handle set \<times> handle set \<Rightarrow> bool" where
  "one_pipeline L = (finite (fst L) \<and> card (fst L) \<le> 1 \<and> finite (snd L) \<and> card (snd L) \<le> 2)"


text \<open>Handling a sequence of client frames, one after the other.\<close>

definition handle_all :: "node_lib \<Rightarrow> ws \<Rightarrow> string list \<Rightarrow> sys \<Rightarrow> sys" where
  "handle_all lib w messages s = foldl (\<lambda>s message. handleWebSocketMessage lib w message s) s messages"

section \<open>The message list of the client (App component, \<open>socketRef.current.onmessage\<close>)\<close>

datatype sender = User | Bot

datatype msg_type = Text | Audio

record message =
  sender :: sender
  msg_type :: msg_type
  content :: string
  turnComplete :: bool
  isError :: bool

text \<open>
  A frame from the server once \<open>JSON.parse\<close> has read it, by the fields the handler looks
  at: the three kinds of frame from \<open>gemini\<close> that it acts on (the \<open>data\<close> of a text frame,
  \<open>data.audio\<close> and \<open>data.mimeType\<close> of an audio frame), any other frame from \<open>gemini\<close>, an
  error frame from \<open>backend\<close>, any other frame, and a frame on which the handler throws
  (with the message of the exception).
\<close>

datatype frame =
    FromGemini_text string
  | FromGemini_audio string string
  | FromGemini_turnComplete
  | FromGemini_other
  | FromBackend_error string
  | Other_frame
  | Throwing_frame string

text \<open>\<open>Array.prototype.findLastIndex\<close>: the scan runs from the last index down; \<open>None\<close> is \<open>-1\<close>.\<close>

fun find_last_below :: "('a \<Rightarrow> bool) \<Rightarrow> 'a list \<Rightarrow> nat \<Rightarrow> nat option" where
  "find_last_below P xs 0 = None"
| "find_last_below P xs (Suc k) = (if P (xs ! k) then Some k else find_last_below P xs k)"

definition findLastIndex :: "('a \<Rightarrow> bool) \<Rightarrow> 'a list \<Rightarrow> nat option" where
  "findLastIndex P xs = find_last_below P xs (length xs)"

text \<open>\<open>idx !== -1 && !updatedMessages[idx].turnComplete\<close>\<close>

definition is_open :: "nat option \<Rightarrow> message list \<Rightarrow> bool" where
  "is_open idx ms = (case idx of None \<Rightarrow> False | Some i \<Rightarrow> \<not> turnComplete (ms ! i))"

text \<open>
  \<open>if (lastBotMessageIndex !== -1 && !updatedMessages[lastBotMessageIndex].turnComplete)
  updatedMessages[lastBotMessageIndex].turnComplete = true\<close>
\<close>

definition close_last_bot :: "nat option \<Rightarrow> message list \<Rightarrow> message list" where
  "close_last_bot lastBotMessageIndex ms =
     (case lastBotMessageIndex of
        None \<Rightarrow> ms
      | Some i \<Rightarrow> if \<not> turnComplete (ms ! i) then ms[i := (ms ! i)\<lparr>turnComplete := True\<rparr>] else ms)"

text \<open>
  The state update of \<open>onmessage\<close>. \<open>audioUrl\<close> stands for \<open>base64ToBlob\<close> followed by
  \<open>URL.createObjectURL\<close>: \<open>None\<close> when \<open>base64ToBlob\<close> returns \<open>null\<close>.
\<close>

definition onmessage :: "(string \<Rightarrow> string \<Rightarrow> string option) \<Rightarrow> frame \<Rightarrow> message list \<Rightarrow> message list" where
  "onmessage audioUrl data prev =
     (let updatedMessages = prev;
          lastBotMessageIndex = findLastIndex (\<lambda>msg. sender msg = Bot) updatedMessages;
          lastBotTextMessageIndex =
            findLastIndex (\<lambda>msg. sender msg = Bot \<and> msg_type msg = Text) updatedMessages
      in case data of
           FromGemini_text d \<Rightarrow>
             (if is_open lastBotTextMessageIndex updatedMessages then
                (let i = the lastBotTextMessageIndex
                 in updatedMessages[i := (updatedMessages ! i)
                                      \<lparr>content := content (updatedMessages ! i) @ d\<rparr>])
              else close_last_bot lastBotMessageIndex updatedMessages
                   @ [\<lparr>sender = Bot, msg_type = Text, content = d, turnComplete = False,
                       isError = False\<rparr>])
         | FromGemini_audio audio mime \<Rightarrow>
             (if audio \<noteq> [] \<and> mime \<noteq> [] then
                (case audioUrl audio mime of
                   None \<Rightarrow> updatedMessages
                 | Some url \<Rightarrow>
                     close_last_bot lastBotMessageIndex updatedMessages
                     @ [\<lparr>sender = Bot, msg_type = Audio, content = url, turnComplete = True,
                         isError = False\<rparr>])
              else updatedMessages)
         | FromGemini_turnComplete \<Rightarrow> close_last_bot lastBotMessageIndex updatedMessages
         | FromGemini_other \<Rightarrow> updatedMessages
         | FromBackend_error d \<Rightarrow>
             prev @ [\<lparr>sender = Bot, msg_type = Text, content = ''Erro do Backend: '' @ d,
                      turnComplete = True, isError = True\<rparr>]
         | Other_frame \<Rightarrow> prev
         | Throwing_frame e \<Rightarrow>
             prev @ [\<lparr>sender = Bot, msg_type = Text,
                      content = ''Erro ao processar mensagem: '' @ e,
                      turnComplete = True, isError = True\<rparr>])"

text \<open>The frames of one turn, handled in order.\<close>

definition receive :: "(string \<Rightarrow> string \<Rightarrow> string option) \<Rightarrow> frame list \<Rightarrow> message list \<Rightarrow> message list" where
  "receive audioUrl frames prev = foldl (\<lambda>ms data. onmessage audioUrl data ms) prev frames"

section \<open>Example states\<close>

text \<open>
  A connection in the middle of an audio turn, with three buffered bytes and a running
  pipeline, and a connection whose accumulator holds \<open>2^32 - 36\<close> bytes (a little more
  than a day of 24 kHz mono audio).
\<close>

definition running_state :: clientState where
  "running_state =
     \<lparr>audioBuffer = [1, 2, 3], mimeType = ''audio/pcm'', ffmpegInputStream = Some 4,
      ffmpegProcess = Some 6, pcmOutputStream = Some 5, isSendingAudioToGemini = True,
      firstGeminiResponseReceived = True\<rparr>"



text \<open>
  A runtime with the limits of a 64-bit Node.js on V8, \<open>MAX_LENGTH = 2^32\<close> and
  \<open>MAX_STRING_LENGTH = 2^29 - 24\<close>, in which \<open>ws.send\<close> does not throw.
\<close>

definition example_runtime :: node_runtime where
  "example_runtime =
     \<lparr>MAX_LENGTH = 4294967296, MAX_STRING_LENGTH = 536870888,
      ws_send_throws = (\<lambda>w m. None)\<rparr>"

text \<open>
  A system with no connection, and one where socket 7 has session 3 and the running
  pipeline above.
\<close>

definition empty_sys :: sys where
  "empty_sys = \<lparr>geminiSessionMap = Map.empty, clientStateMap = Map.empty, trace = [],
                 next_handle = 0\<rparr>"

definition connected_sys :: sys where
  "connected_sys = \<lparr>geminiSessionMap = [7 \<mapsto> 3], clientStateMap = [7 \<mapsto> running_state],
                     trace = [], next_handle = 7\<rparr>"

text \<open>
  Three well-formed client frames and one that is not JSON, and an instance of the library
  functions for the examples: \<open>JSON.parse\<close> on the three frames (any other text is
  rejected), the decoding of one base64 string, and \<open>createUserContent\<close> on a string.
\<close>

definition text_frame :: string where
  \<open>text_frame = ''{"type":"text","message":"hi"}''\<close>

definition audio_frame :: string where
  \<open>audio_frame = ''{"type":"audio","audioData":"AQID"}''\<close>

definition ping_frame :: string where
  \<open>ping_frame = ''{"type":"ping"}''\<close>

definition malformed_frame :: string where
  \<open>malformed_frame = ''{"type":''\<close>

definition example_lib :: node_lib where
  "example_lib =
     \<lparr>JSON_parse = (\<lambda>s.
        if s = text_frame
          then Inr (JObj [(''type'', JStr ''text''), (''message'', JStr ''hi'')])
        else if s = audio_frame
          then Inr (JObj [(''type'', JStr ''audio''), (''audioData'', JStr ''AQID'')])
        else if s = ping_frame
          then Inr (JObj [(''type'', JStr ''ping'')])
        else Inl (Thrown ''Unexpected end of JSON input'')),
      Buffer_from_base64 = (\<lambda>a.
        case a of
          Some (JStr s) \<Rightarrow> Inr (if s = ''AQID'' then [1, 2, 3] else [])
        | _ \<Rightarrow> Inl (Thrown ''The first argument must be of type string'')),
      createUserContent = (\<lambda>m.
        case m of
          Some (JStr s) \<Rightarrow>
            Inr (JObj [(''role'', JStr ''user''), (''parts'', JArr [JObj [(''text'', JStr s)]])])
        | _ \<Rightarrow> Inl (Thrown ''partOrString must be a Part object, string, or array''))\<rparr>"

text \<open>A new connection on socket 7 whose session 3 was established.\<close>

definition fresh_connection :: sys where
  "fresh_connection = handleNewConnection (Inr 3) 7 empty_sys"

section \<open>Object graphs and \<open>truncateAudioData\<close> (backend-node/utils.js)\<close>

text \<open>
  \<open>truncateAudioData\<close> clones its argument and then assigns to properties of the clone, so
  the objects live in an explicit store: a value is a primitive or a reference to a cell, and
  a cell is an array or a plain object with its own enumerable properties in enumeration
  order.  \<open>VUndefined\<close> stands for \<open>undefined\<close> and for the other values that
  \<open>JSON.stringify\<close> treats in the same way (a function, a symbol).  Numbers are the
  finite ones.
\<close>

datatype val = VUndefined | VNull | VBool bool | VNum rat | VStr string | VRef nat

datatype cell = Cell (is_array: bool) (props: "(string \<times> val) list")

type_synonym store = "cell list"

text \<open>The property name of the array index \<open>i\<close>: its decimal digits.\<close>

function index_key :: "nat \<Rightarrow> string" where
  "index_key i = (if i < 10 then [''0123456789'' ! i]
                  else index_key (i div 10) @ [''0123456789'' ! (i mod 10)])"
  by pat_completeness auto
termination
  by (relation "measure id") auto

declare index_key.simps [simp del]

text \<open>
  \<open>JSON.stringify\<close>, up to the text of the result: the JSON tree it writes.  A property of a
  plain object whose value is \<open>undefined\<close> is left out, an \<open>undefined\<close> element of an
  array is written as \<open>null\<close>.  The first argument bounds the depth of nesting; with the
  number of cells of the store as bound, \<open>None\<close> is the \<open>TypeError\<close> for a circular
  structure.
\<close>

definition serialised_props :: "cell \<Rightarrow> (string \<times> val) list" where
  "serialised_props c =
     (if is_array c then props c else filter (\<lambda>kv. snd kv \<noteq> VUndefined) (props c))"

fun stringify :: "nat \<Rightarrow> store \<Rightarrow> val \<Rightarrow> json option" where
  "stringify n st VUndefined = Some JNull"
| "stringify n st VNull = Some JNull"
| "stringify n st (VBool b) = Some (JBool b)"
| "stringify n st (VNum x) = Some (JNum x)"
| "stringify n st (VStr s) = Some (JStr s)"
| "stringify 0 st (VRef a) = None"
| "stringify (Suc n) st (VRef a) =
     (if a < length st then
        (case those (map (stringify n st) (map snd (serialised_props (st ! a)))) of
           None \<Rightarrow> None
         | Some ts \<Rightarrow>
             Some (if is_array (st ! a) then JArr ts
                   else JObj (zip (map fst (serialised_props (st ! a))) ts)))
      else None)"

text \<open>
  \<open>JSON.parse\<close> of a JSON tree allocates one new cell for every array and object of the
  tree.  \<open>parse_at t b\<close> gives the value and the new cells when the next free address is
  \<open>b\<close>; the cells of the children come before the cell of their parent.
\<close>

fun thread :: "(nat \<Rightarrow> val \<times> cell list) list \<Rightarrow> nat \<Rightarrow> val list \<times> cell list" where
  "thread [] b = ([], [])"
| "thread (f # fs) b =
     (let (v, cs) = f b; (vs, cs') = thread fs (b + length cs) in (v # vs, cs @ cs'))"

fun parse_at :: "json \<Rightarrow> nat \<Rightarrow> val \<times> cell list" where
  "parse_at JNull = (\<lambda>b. (VNull, []))"
| "parse_at (JBool x) = (\<lambda>b. (VBool x, []))"
| "parse_at (JNum x) = (\<lambda>b. (VNum x, []))"
| "parse_at (JStr s) = (\<lambda>b. (VStr s, []))"
| "parse_at (JArr ts) = (\<lambda>b.
     let (vs, cs) = thread (map parse_at ts) b
     in (VRef (b + length cs), cs @ [Cell True (zip (map index_key [0..<length vs]) vs)]))"
| "parse_at (JObj kts) = (\<lambda>b.
     let (vs, cs) = thread (map (\<lambda>kt. parse_at (snd kt)) kts) b
     in (VRef (b + length cs), cs @ [Cell False (zip (map fst kts) vs)]))"

text \<open>
  The test of the inner function \<open>traverse\<close> on a string property: the key is one of the
  three names, the string is longer than \<open>maxLength\<close>, and its first character matches
  \<open>/^[a-zA-Z0-9+/=]/\<close>.
\<close>

definition is_target_key :: "string \<Rightarrow> bool" where
  "is_target_key key = (key = ''data'' \<or> key = ''audio'' \<or> key = ''audioData'')"

definition base64_start :: "string \<Rightarrow> bool" where
  "base64_start s =
     (case s of
        [] \<Rightarrow> False
      | c # cs \<Rightarrow>
          c \<in> set ''abcdefghijklmnopqrstuvwxyzABCDEFGHIJKLMNOPQRSTUVWXYZ0123456789+/='')"

definition truncated :: "nat \<Rightarrow> string \<Rightarrow> string" where
  "truncated maxLength s = take maxLength s @ ''...[TRUNCATED]''"

definition must_truncate :: "nat \<Rightarrow> string \<Rightarrow> string \<Rightarrow> bool" where
  "must_truncate maxLength key s =
     (is_target_key key \<and> length s > maxLength \<and> base64_start s)"

text \<open>The assignment \<open>current[key] = v\<close> to the \<open>i\<close>-th property of a cell.\<close>

definition set_prop :: "cell \<Rightarrow> nat \<Rightarrow> val \<Rightarrow> cell" where
  "set_prop c i v = Cell (is_array c) ((props c)[i := (fst (props c ! i), v)])"

text \<open>
  The inner function \<open>traverse\<close> and its \<open>for (const key in current)\<close> loop, which
  updates the store in place.  The first argument bounds the depth of the recursion
  (\<open>None\<close> when it is used up).
\<close>

fun traverse :: "nat \<Rightarrow> nat \<Rightarrow> val \<Rightarrow> store \<Rightarrow> store option"
  and traverse_keys :: "nat \<Rightarrow> nat \<Rightarrow> nat \<Rightarrow> nat list \<Rightarrow> store \<Rightarrow> store option" where
  "traverse n maxLength VUndefined st = Some st"
| "traverse n maxLength VNull st = Some st"
| "traverse n maxLength (VBool b) st = Some st"
| "traverse n maxLength (VNum x) st = Some st"
| "traverse n maxLength (VStr s) st = Some st"
| "traverse 0 maxLength (VRef a) st = None"
| "traverse (Suc n) maxLength (VRef a) st =
     (if a < length st then traverse_keys n maxLength a [0..<length (props (st ! a))] st
      else None)"
| "traverse_keys n maxLength a [] st = Some st"
| "traverse_keys n maxLength a (i # is) st =
     (let key = fst (props (st ! a) ! i); v = snd (props (st ! a) ! i)
      in case v of
           VStr s \<Rightarrow>
             traverse_keys n maxLength a is
               (if must_truncate maxLength key s
                then st[a := set_prop (st ! a) i (VStr (truncated maxLength s))]
                else st)
         | VRef b \<Rightarrow>
             (case traverse n maxLength (VRef b) st of
                None \<Rightarrow> None
              | Some st' \<Rightarrow> traverse_keys n maxLength a is st')
         | _ \<Rightarrow> traverse_keys n maxLength a is st)"

text \<open>
  \<open>truncateAudioData(obj, maxLength)\<close>: the value returned and the store afterwards;
  \<open>None\<close> when \<open>JSON.stringify\<close> throws.
\<close>

definition truncateAudioData :: "val \<Rightarrow> nat \<Rightarrow> store \<Rightarrow> (val \<times> store) option" where
  "truncateAudioData obj maxLength st =
     (case obj of
        VRef a \<Rightarrow>
          (case stringify (length st) st obj of
             None \<Rightarrow> None
           | Some text \<Rightarrow>
               (let (clonedObj, new_cells) = parse_at text (length st);
                    st1 = st @ new_cells
                in case traverse (length st1) maxLength clonedObj st1 of
                     None \<Rightarrow> None
                   | Some st2 \<Rightarrow> Some (clonedObj, st2)))
      | _ \<Rightarrow> Some (obj, st))"

text \<open>The property read \<open>v[key]\<close>.\<close>

definition read_prop :: "store \<Rightarrow> val \<Rightarrow> string \<Rightarrow> val" where
  "read_prop st v key =
     (case v of
        VRef a \<Rightarrow> (case map_of (props (st ! a)) key of None \<Rightarrow> VUndefined | Some x \<Rightarrow> x)
      | _ \<Rightarrow> VUndefined)"

subsection \<open>The result as the specification describes it\<close>

text \<open>
  On JSON trees, in the words of the specification: a string under one of the keys
  \<open>data\<close>, \<open>audio\<close>, \<open>audioData\<close> that is longer than \<open>maxLength\<close> and starts with a
  character of the base64 alphabet is replaced by the truncated prefix and the marker;
  every other field is kept.
\<close>

definition truncate_prop :: "nat \<Rightarrow> string \<Rightarrow> json \<Rightarrow> json" where
  "truncate_prop maxLength key t =
     (case t of
        JStr s \<Rightarrow> if must_truncate maxLength key s then JStr (truncated maxLength s) else t
      | _ \<Rightarrow> t)"

fun expected :: "nat \<Rightarrow> json \<Rightarrow> json" where
  "expected maxLength (JObj kts) =
     JObj (map (\<lambda>kt. (fst kt, truncate_prop maxLength (fst kt) (expected maxLength (snd kt)))) kts)"
| "expected maxLength (JArr ts) = JArr (map (expected maxLength) ts)"
| "expected maxLength t = t"

subsection \<open>The layout of a parsed tree in the store\<close>

definition root_at :: "json \<Rightarrow> nat \<Rightarrow> val" where
  "root_at t b = fst (parse_at t b)"

definition cells_at :: "json \<Rightarrow> nat \<Rightarrow> cell list" where
  "cells_at t b = snd (parse_at t b)"

fun ncells :: "json \<Rightarrow> nat" where
  "ncells (JArr ts) = Suc (sum_list (map ncells ts))"
| "ncells (JObj kts) = Suc (sum_list (map (\<lambda>kt. ncells (snd kt)) kts))"
| "ncells t = 0"

definition ncellsl :: "json list \<Rightarrow> nat" where
  "ncellsl ts = sum_list (map ncells ts)"

fun roots :: "json list \<Rightarrow> nat \<Rightarrow> val list" where
  "roots [] b = []"
| "roots (t # ts) b = root_at t b # roots ts (b + ncells t)"

fun cellsl :: "json list \<Rightarrow> nat \<Rightarrow> cell list" where
  "cellsl [] b = []"
| "cellsl (t # ts) b = cells_at t b @ cellsl ts (b + ncells t)"

definition exp_children :: "nat \<Rightarrow> string list \<Rightarrow> json list \<Rightarrow> json list" where
  "exp_children m ks ts = map (\<lambda>(k, t). truncate_prop m k (expected m t)) (zip ks ts)"

subsection \<open>Example object graphs\<close>

text \<open>The array \<open>[undefined]\<close>.\<close>

definition undefined_element :: store where
  "undefined_element = [Cell True [(''0'', VUndefined)]]"

text \<open>
  A message object (cell 2) with an array of parts, an inline audio part that is referenced
  twice, and properties that are \<open>undefined\<close>; its serialisation; and the cells of the
  clone after truncation to four characters.
\<close>

definition server_message :: store where
  "server_message =
     [Cell False [(''data'', VStr ''UklGRiQAAABXQVZF''), (''mimeType'', VStr ''audio/pcm'')],
      Cell True [(''0'', VRef 0), (''1'', VUndefined), (''2'', VStr ''data'')],
      Cell False [(''parts'', VRef 1), (''text'', VUndefined), (''audio'', VStr ''hm''),
                  (''audioData'', VStr '' UklGRiQAAABXQVZF''), (''again'', VRef 0)]]"

definition server_message_json :: json where
  "server_message_json =
     JObj [(''parts'', JArr [JObj [(''data'', JStr ''UklGRiQAAABXQVZF''),
                                   (''mimeType'', JStr ''audio/pcm'')],
                             JNull, JStr ''data'']),
           (''audio'', JStr ''hm''),
           (''audioData'', JStr '' UklGRiQAAABXQVZF''),
           (''again'', JObj [(''data'', JStr ''UklGRiQAAABXQVZF''),
                             (''mimeType'', JStr ''audio/pcm'')])]"

definition truncated_copy :: "cell list" where
  "truncated_copy =
     [Cell False [(''data'', VStr ''UklG...[TRUNCATED]''), (''mimeType'', VStr ''audio/pcm'')],
      Cell True [(''0'', VRef 3), (''1'', VNull), (''2'', VStr ''data'')],
      Cell False [(''data'', VStr ''UklG...[TRUNCATED]''), (''mimeType'', VStr ''audio/pcm'')],
      Cell False [(''parts'', VRef 4), (''audio'', VStr ''hm''),
                  (''audioData'', VStr '' UklGRiQAAABXQVZF''), (''again'', VRef 5)]]"

section \<open>Verified properties\<close>

subsection \<open>The WAV header\<close>

lemma bytes4_nat:
  assumes "v < 4294967296"
  shows "v mod 256 + (v div 256 mod 256) * 256 + (v div 65536 mod 256) * 65536
         + (v div 16777216 mod 256) * 16777216 = (v::nat)"
proof -
  have a: "v div 16777216 mod 256 = v div 16777216" using assms by simp
  have e1: "v div 65536 div 256 = v div 16777216"
    by (simp add: div_mult2_eq [symmetric])
  have e2: "v div 256 div 256 = v div 65536"
    by (simp add: div_mult2_eq [symmetric])
  have b: "v div 65536 = (v div 65536 mod 256) + 256 * (v div 16777216)"
    using div_mult_mod_eq [of "v div 65536" 256] e1 by simp
  have c: "v div 256 = (v div 256 mod 256) + 256 * (v div 65536)"
    using div_mult_mod_eq [of "v div 256" 256] e2 by simp
  have d: "v = v mod 256 + 256 * (v div 256)"
    using div_mult_mod_eq [of v 256] by simp
  show ?thesis using a b c d by linarith
qed

lemma bytes4:
  "v < 2 ^ 32 \<Longrightarrow>
   unat (of_nat v :: byte) + unat (of_nat (v div 2 ^ 8) :: byte) * 2 ^ 8
   + unat (of_nat (v div 2 ^ 16) :: byte) * 2 ^ 16
   + unat (of_nat (v div 2 ^ 24) :: byte) * 2 ^ 24 = v"
  using bytes4_nat [of v] by (simp add: unat_of_nat)

lemma riff_size_in_range:
  assumes "L + 36 < 2 ^ 32"
  shows "\<not> (of_nat L :: rat) + 36 > 4294967295"
proof -
  from assms have "L + 36 \<le> 4294967295" by simp
  then have "(of_nat (L + 36) :: rat) \<le> of_nat 4294967295" by (rule of_nat_mono)
  then show ?thesis by simp
qed

lemma data_size_in_range:
  assumes "L + 36 < 2 ^ 32"
  shows "\<not> (of_nat L :: rat) > 4294967295"
proof -
  from assms have "L \<le> 4294967295" by simp
  then have "(of_nat L :: rat) \<le> of_nat 4294967295" by (rule of_nat_mono)
  then show ?thesis by simp
qed

lemma createWavHeader_24k_mono:
  assumes "L + 36 < 2 ^ 32"
  shows "createWavHeader (of_nat L) 24000 16 1 = Inr (wav_header_24k_mono L)"
proof -
  have n: "nat (int L + 36) = L + 36" by simp
  show ?thesis
    using riff_size_in_range [OF assms] data_size_in_range [OF assms] n
    by (simp add: createWavHeader_def wav_header_24k_mono_def seq_def Buffer_write_def
        writeUInt32LE_def writeUInt16LE_def Buffer_alloc_def le32_def Let_def)
qed

lemma createWavHeader_too_long:
  assumes "\<not> L + 36 < 2 ^ 32"
  shows "createWavHeader (of_nat L) 24000 16 1
         = Inl (ERR_OUT_OF_RANGE ''value'' (of_nat L + 36))"
proof -
  from assms have "4294967296 \<le> L + 36" by simp
  then have "(of_nat 4294967296 :: rat) \<le> of_nat (L + 36)" by (rule of_nat_mono)
  then have "(of_nat L :: rat) + 36 > 4294967295" by simp
  then show ?thesis
    by (simp add: createWavHeader_def seq_def Buffer_write_def writeUInt32LE_def
        Buffer_alloc_def Let_def)
qed

lemma wav_header_fields:
  assumes "L + 36 < 2 ^ 32"
  shows "length (wav_header_24k_mono L) = 44"
    and "u32_at (wav_header_24k_mono L) 4 = L + 36"
    and "u32_at (wav_header_24k_mono L) 28 = 48000"
    and "u16_at (wav_header_24k_mono L) 32 = 2"
    and "u32_at (wav_header_24k_mono L) 40 = L"
    and "u16_at (wav_header_24k_mono L) 20 = 1"
proof -
  show "length (wav_header_24k_mono L) = 44"
    by (simp add: wav_header_24k_mono_def le32_def)
  show "u32_at (wav_header_24k_mono L) 4 = L + 36"
    using bytes4 [of "L + 36"] assms by (simp add: wav_header_24k_mono_def le32_def u32_at_def)
  show "u32_at (wav_header_24k_mono L) 28 = 48000"
    by (simp add: wav_header_24k_mono_def le32_def u32_at_def)
  show "u16_at (wav_header_24k_mono L) 32 = 2"
    by (simp add: wav_header_24k_mono_def le32_def u16_at_def)
  show "u16_at (wav_header_24k_mono L) 20 = 1"
    by (simp add: wav_header_24k_mono_def le32_def u16_at_def)
  show "u32_at (wav_header_24k_mono L) 40 = L"
    using bytes4 [of L] assms by (simp add: wav_header_24k_mono_def le32_def u32_at_def)
qed

text \<open>
  Claim C1, as amended. For every payload length \<open>L\<close> with \<open>L + 36 < 2^32\<close> (so also for
  \<open>L = 0\<close> and \<open>L = 1,000,000\<close>), \<open>createWavHeader(L, 24000, 16, 1)\<close> returns, without an
  exception, the 44 bytes of \<open>wav_header_24k_mono L\<close>: the RIFF size field is \<open>L + 36\<close>,
  the byte rate 48000, the block align 2, the data length \<open>L\<close> and the format code 1.
  The size fields are 32 bits wide: for a longer payload the first \<open>writeUInt32LE\<close> raises
  a range error instead.
\<close>

theorem C1_wav_header:
  "(L + 36 < 2 ^ 32 \<longrightarrow>
      createWavHeader (of_nat L) 24000 16 1 = Inr (wav_header_24k_mono L)
      \<and> length (wav_header_24k_mono L) = 44
      \<and> u32_at (wav_header_24k_mono L) 4 = L + 36
      \<and> u32_at (wav_header_24k_mono L) 28 = 48000
      \<and> u16_at (wav_header_24k_mono L) 32 = 2
      \<and> u32_at (wav_header_24k_mono L) 40 = L
      \<and> u16_at (wav_header_24k_mono L) 20 = 1)
   \<and> (\<not> L + 36 < 2 ^ 32 \<longrightarrow>
      createWavHeader (of_nat L) 24000 16 1 = Inl (ERR_OUT_OF_RANGE ''value'' (of_nat L + 36)))"
  using createWavHeader_24k_mono [of L] createWavHeader_too_long [of L] wav_header_fields [of L]
  by blast

text \<open>The two payload lengths the specification names, and the first length that fails.\<close>

theorem C1_wav_header_witness:
  "createWavHeader 0 24000 16 1 = Inr (wav_header_24k_mono 0)
   \<and> u32_at (wav_header_24k_mono 0) 4 = 36 \<and> u32_at (wav_header_24k_mono 0) 40 = 0
   \<and> createWavHeader 1000000 24000 16 1 = Inr (wav_header_24k_mono 1000000)
   \<and> u32_at (wav_header_24k_mono 1000000) 4 = 1000036
   \<and> u32_at (wav_header_24k_mono 1000000) 28 = 48000
   \<and> u16_at (wav_header_24k_mono 1000000) 32 = 2
   \<and> u32_at (wav_header_24k_mono 1000000) 40 = 1000000
   \<and> createWavHeader 4294967260 24000 16 1 = Inl (ERR_OUT_OF_RANGE ''value'' 4294967296)"
  using C1_wav_header [of 0] C1_wav_header [of 1000000] C1_wav_header [of 4294967260]
  by simp

text \<open>
  Claim C1 as stated fails: at \<open>L = 4294967260\<close> the call raises a range error, so there is
  no header whose size field is \<open>L + 36\<close>.
\<close>

theorem C1_counterexample:
  "createWavHeader 4294967260 24000 16 1 = Inl (ERR_OUT_OF_RANGE ''value'' 4294967296)"
  by (simp add: createWavHeader_def seq_def Buffer_write_def writeUInt32LE_def
      Buffer_alloc_def Let_def)

subsection \<open>Tearing the pipeline down\<close>

text \<open>
  Claim C9. After \<open>stopAudioProcessing\<close> the three handles are \<open>null\<close> and
  \<open>isSendingAudioToGemini\<close> is \<open>false\<close>; \<open>audioBuffer\<close>, \<open>mimeType\<close> and
  \<open>firstGeminiResponseReceived\<close> are as before; on a state that is already in this
  condition the call changes nothing (and makes no call on a process or a stream), so a
  second call in a row changes nothing.
\<close>

theorem C9_stopAudioProcessing_frame:
  "ffmpegProcess (fst (stopAudioProcessing clientState)) = None
   \<and> ffmpegInputStream (fst (stopAudioProcessing clientState)) = None
   \<and> pcmOutputStream (fst (stopAudioProcessing clientState)) = None
   \<and> \<not> isSendingAudioToGemini (fst (stopAudioProcessing clientState))
   \<and> audioBuffer (fst (stopAudioProcessing clientState)) = audioBuffer clientState
   \<and> mimeType (fst (stopAudioProcessing clientState)) = mimeType clientState
   \<and> firstGeminiResponseReceived (fst (stopAudioProcessing clientState))
       = firstGeminiResponseReceived clientState
   \<and> (ffmpegProcess clientState = None \<and> ffmpegInputStream clientState = None
        \<and> pcmOutputStream clientState = None \<and> \<not> isSendingAudioToGemini clientState
       \<longrightarrow> stopAudioProcessing clientState = (clientState, []))
   \<and> stopAudioProcessing (fst (stopAudioProcessing clientState))
       = (fst (stopAudioProcessing clientState), [])"
  by (simp add: stopAudioProcessing_def)

theorem C9_stopAudioProcessing_frame_witness:
  "ffmpegProcess initialClientState = None \<and> ffmpegInputStream initialClientState = None
   \<and> pcmOutputStream initialClientState = None
   \<and> \<not> isSendingAudioToGemini initialClientState
   \<and> stopAudioProcessing initialClientState = (initialClientState, [])"
  using C9_stopAudioProcessing_frame [of initialClientState]
  by (simp add: initialClientState_def)

subsection \<open>The end of a turn of the assistant\<close>















lemma example_runtime_simps [simp]:
  "MAX_LENGTH example_runtime = 4294967296" "MAX_STRING_LENGTH example_runtime = 536870888"
  "ws_send_throws example_runtime w m = None"
  by (simp_all add: example_runtime_def)



subsection \<open>Destroying a connection\<close>

lemma cleanup_trace:
  "trace (cleanupClient w s) =
       trace s
       @ (case clientStateMap s w of None \<Rightarrow> [] | Some clientState \<Rightarrow> snd (stopAudioProcessing clientState))
       @ (case geminiSessionMap s w of None \<Rightarrow> [] | Some session \<Rightarrow> [SessionClose session])"
  by (simp add: cleanupClient_def emit_def Let_def split: option.split prod.split)

lemma cleanup_maps:
  "clientStateMap (cleanupClient w s) = (clientStateMap s)(w := None)"
  "geminiSessionMap (cleanupClient w s) = (geminiSessionMap s)(w := None)"
  "next_handle (cleanupClient w s) = next_handle s"
  by (auto simp add: cleanupClient_def emit_def Let_def split: option.split prod.split)

lemma cleanup_absent:
  assumes "clientStateMap s w = None" "geminiSessionMap s w = None"
  shows "cleanupClient w s = s"
proof -
  from assms(1) have "(clientStateMap s)(w := None) = clientStateMap s"
    by (simp add: fun_upd_idem)
  with assms show ?thesis by (simp add: cleanupClient_def Let_def)
qed

text \<open>
  Claim C4. \<open>cleanupClient\<close> is idempotent. The first call tears the pipeline of the
  connection down (the calls of \<open>stopAudioProcessing\<close> on its state), closes its session
  once and removes its entries from both maps; a second call on the same connection, or a
  call on a connection that has no entry, returns the system as it is: it raises nothing
  and makes no further call on a process, a stream or a session.
\<close>

theorem C4_cleanupClient_idempotent:
  "cleanupClient w (cleanupClient w s) = cleanupClient w s
   \<and> clientStateMap (cleanupClient w s) w = None
   \<and> geminiSessionMap (cleanupClient w s) w = None
   \<and> trace (cleanupClient w s) =
       trace s
       @ (case clientStateMap s w of None \<Rightarrow> [] | Some clientState \<Rightarrow> snd (stopAudioProcessing clientState))
       @ (case geminiSessionMap s w of None \<Rightarrow> [] | Some session \<Rightarrow> [SessionClose session])
   \<and> (clientStateMap s w = None \<and> geminiSessionMap s w = None \<longrightarrow> cleanupClient w s = s)"
proof -
  have a: "clientStateMap (cleanupClient w s) w = None" by (simp add: cleanup_maps)
  have b: "geminiSessionMap (cleanupClient w s) w = None" by (simp add: cleanup_maps)
  from cleanup_absent [OF a b] a b cleanup_trace [of w s] cleanup_absent [of s w]
  show ?thesis by simp
qed


theorem C4_cleanupClient_idempotent_witness:
  "clientStateMap empty_sys 7 = None \<and> geminiSessionMap empty_sys 7 = None
   \<and> cleanupClient 7 empty_sys = empty_sys
   \<and> trace (cleanupClient 7 connected_sys)
       = [ProcessKill 6, StreamDestroy 4, StreamDestroy 5, SessionClose 3]
   \<and> cleanupClient 7 (cleanupClient 7 connected_sys) = cleanupClient 7 connected_sys"
  using C4_cleanupClient_idempotent [of 7 empty_sys] C4_cleanupClient_idempotent [of 7 connected_sys]
  by (simp add: empty_sys_def connected_sys_def running_state_def stopAudioProcessing_def)

subsection \<open>A text message from the client\<close>






lemma parse_examples:
  "JSON_parse example_lib text_frame = Inr (JObj [(''type'', JStr ''text''), (''message'', JStr ''hi'')])"
  "JSON_parse example_lib audio_frame = Inr (JObj [(''type'', JStr ''audio''), (''audioData'', JStr ''AQID'')])"
  "JSON_parse example_lib ping_frame = Inr (JObj [(''type'', JStr ''ping'')])"
  "JSON_parse example_lib malformed_frame = Inl (Thrown ''Unexpected end of JSON input'')"
  by (simp_all add: example_lib_def text_frame_def audio_frame_def malformed_frame_def ping_frame_def)

lemma lib_examples:
  "createUserContent example_lib (Some (JStr s)) =
     Inr (JObj [(''role'', JStr ''user''), (''parts'', JArr [JObj [(''text'', JStr s)]])])"
  "Buffer_from_base64 example_lib (Some (JStr ''AQID'')) = Inr [1, 2, 3]"
  by (simp_all add: example_lib_def)


subsection \<open>A frame that is not JSON\<close>

text \<open>
  A handler reads the calls made so far only to add to them: on a system that differs in
  its \<open>trace\<close> alone it makes the same new calls and leaves the same maps.
\<close>

lemma stop_pair: "stopAudioProcessing cs = (fst (stopAudioProcessing cs), snd (stopAudioProcessing cs))"
  by simp

lemma handleTextMessage_trace:
  "handleTextMessage lib w fm (s\<lparr>trace := t\<rparr>) =
     (fst (handleTextMessage lib w fm s),
      (snd (handleTextMessage lib w fm s))\<lparr>trace := t @ drop (length (trace s)) (trace (snd (handleTextMessage lib w fm s)))\<rparr>)"
  by (simp add: handleTextMessage_def emit_def Let_def split: option.split sum.split prod.split)

lemma handleAudioMessage_trace:
  "handleAudioMessage lib w fm (s\<lparr>trace := t\<rparr>) =
     (fst (handleAudioMessage lib w fm s),
      (snd (handleAudioMessage lib w fm s))\<lparr>trace := t @ drop (length (trace s)) (trace (snd (handleAudioMessage lib w fm s)))\<rparr>)"
  by (simp add: handleAudioMessage_def emit_def Let_def split: option.split sum.split prod.split)

lemma dispatch_trace:
  "dispatch lib w m (s\<lparr>trace := t\<rparr>) =
     (fst (dispatch lib w m s),
      (snd (dispatch lib w m s))\<lparr>trace := t @ drop (length (trace s)) (trace (snd (dispatch lib w m s)))\<rparr>)"
  by (simp add: dispatch_def handleTextMessage_trace handleAudioMessage_trace split: sum.split)

lemma dispatch_extends: "\<exists>new. trace (snd (dispatch lib w m s)) = trace s @ new"
  by (simp add: dispatch_def handleTextMessage_def handleAudioMessage_def emit_def Let_def split: option.split sum.split prod.split)

lemma handleWebSocketMessage_trace:
  "handleWebSocketMessage lib w m (s\<lparr>trace := t\<rparr>) =
     (handleWebSocketMessage lib w m s)\<lparr>trace := t @ drop (length (trace s)) (trace (handleWebSocketMessage lib w m s))\<rparr>"
proof -
  obtain new where n: "trace (snd (dispatch lib w m s)) = trace s @ new"
    using dispatch_extends by blast
  show ?thesis
    using n
    by (cases "dispatch lib w m s")
      (auto simp add: handleWebSocketMessage_def dispatch_trace emit_def split: option.split)
qed

text \<open>
  Claim C7. On a connection that has a session and a state, a frame that \<open>JSON.parse\<close>
  rejects changes nothing but the calls made: one error message is sent to the client,
  the two maps (so the state of the connection: its handles, its accumulator, its flags)
  and the handle counter are as before, the socket is not closed, and no exception leaves
  the handler. Any frame handled next is handled as it would have been without the
  malformed one: the same maps result and the same calls are made, after the report.
\<close>

theorem C7_malformed_message:
  "geminiSessionMap s w = Some currentSession \<and> clientStateMap s w = Some clientState
   \<and> JSON_parse lib message = Inl error
   \<longrightarrow>
     handleWebSocketMessage lib w message s =
       s\<lparr>trace := trace s @ [WsSend w (BackendError ''Backend error processing message: ''
                                         error ''Unknown error'')]\<rparr>
     \<and> clientStateMap (handleWebSocketMessage lib w message s) = clientStateMap s
     \<and> geminiSessionMap (handleWebSocketMessage lib w message s) = geminiSessionMap s
     \<and> next_handle (handleWebSocketMessage lib w message s) = next_handle s
     \<and> (\<forall>next.
          handleWebSocketMessage lib w next (handleWebSocketMessage lib w message s) =
            (handleWebSocketMessage lib w next s)
              \<lparr>trace := trace s
                         @ [WsSend w (BackendError ''Backend error processing message: ''
                                        error ''Unknown error'')]
                         @ drop (length (trace s)) (trace (handleWebSocketMessage lib w next s))\<rparr>)"
proof (intro impI, elim conjE)
  assume a: "geminiSessionMap s w = Some currentSession" "clientStateMap s w = Some clientState"
    "JSON_parse lib message = Inl error"
  let ?report = "WsSend w (BackendError ''Backend error processing message: '' error ''Unknown error'')"
  have h: "handleWebSocketMessage lib w message s = s\<lparr>trace := trace s @ [?report]\<rparr>"
    using a by (simp add: handleWebSocketMessage_def dispatch_def emit_def)
  have n: "\<forall>next. handleWebSocketMessage lib w next (s\<lparr>trace := trace s @ [?report]\<rparr>) =
            (handleWebSocketMessage lib w next s)
              \<lparr>trace := trace s @ [?report]
                         @ drop (length (trace s)) (trace (handleWebSocketMessage lib w next s))\<rparr>"
    by (simp add: handleWebSocketMessage_trace)
  show "handleWebSocketMessage lib w message s = s\<lparr>trace := trace s @ [?report]\<rparr>
     \<and> clientStateMap (handleWebSocketMessage lib w message s) = clientStateMap s
     \<and> geminiSessionMap (handleWebSocketMessage lib w message s) = geminiSessionMap s
     \<and> next_handle (handleWebSocketMessage lib w message s) = next_handle s
     \<and> (\<forall>next.
          handleWebSocketMessage lib w next (handleWebSocketMessage lib w message s) =
            (handleWebSocketMessage lib w next s)
              \<lparr>trace := trace s @ [?report]
                         @ drop (length (trace s)) (trace (handleWebSocketMessage lib w next s))\<rparr>)"
    unfolding h using n by simp
qed

theorem C7_malformed_message_witness:
  "geminiSessionMap connected_sys 7 = Some 3 \<and> clientStateMap connected_sys 7 = Some running_state
   \<and> JSON_parse example_lib malformed_frame = Inl (Thrown ''Unexpected end of JSON input'')
   \<and> handleWebSocketMessage example_lib 7 malformed_frame connected_sys =
       connected_sys\<lparr>trace := [WsSend 7 (BackendError ''Backend error processing message: ''
                                 (Thrown ''Unexpected end of JSON input'') ''Unknown error'')]\<rparr>
   \<and> trace (handleWebSocketMessage example_lib 7 text_frame
              (handleWebSocketMessage example_lib 7 malformed_frame connected_sys)) =
       [WsSend 7 (BackendError ''Backend error processing message: ''
                    (Thrown ''Unexpected end of JSON input'') ''Unknown error''),
        ProcessKill 6, StreamDestroy 4, StreamDestroy 5,
        SendClientContent 3
          (JObj [(''role'', JStr ''user''), (''parts'', JArr [JObj [(''text'', JStr ''hi'')]])])
          True]"
proof -
  let ?e = "Thrown ''Unexpected end of JSON input''"
  have hyp: "geminiSessionMap connected_sys 7 = Some 3
      \<and> clientStateMap connected_sys 7 = Some running_state
      \<and> JSON_parse example_lib malformed_frame = Inl ?e"
    by (simp add: parse_examples connected_sys_def)
  from C7_malformed_message [of connected_sys 7 3 running_state example_lib malformed_frame ?e] hyp
  have c: "handleWebSocketMessage example_lib 7 malformed_frame connected_sys =
       connected_sys\<lparr>trace := trace connected_sys @ [WsSend 7 (BackendError ''Backend error processing message: '' ?e ''Unknown error'')]\<rparr>"
    and d: "\<forall>next. handleWebSocketMessage example_lib 7 next (handleWebSocketMessage example_lib 7 malformed_frame connected_sys) =
            (handleWebSocketMessage example_lib 7 next connected_sys)
              \<lparr>trace := trace connected_sys
                         @ [WsSend 7 (BackendError ''Backend error processing message: '' ?e ''Unknown error'')]
                         @ drop (length (trace connected_sys)) (trace (handleWebSocketMessage example_lib 7 next connected_sys))\<rparr>"
    by blast+
  have t: "trace (handleWebSocketMessage example_lib 7 text_frame connected_sys) =
      [ProcessKill 6, StreamDestroy 4, StreamDestroy 5,
        SendClientContent 3
          (JObj [(''role'', JStr ''user''), (''parts'', JArr [JObj [(''text'', JStr ''hi'')]])])
          True]"
    by (simp add: handleWebSocketMessage_def dispatch_def handleTextMessage_def emit_def
        parse_examples lib_examples connected_sys_def running_state_def stopAudioProcessing_def)
  have e: "trace connected_sys = []" by (simp add: connected_sys_def)
  from d have "trace (handleWebSocketMessage example_lib 7 text_frame
              (handleWebSocketMessage example_lib 7 malformed_frame connected_sys)) =
       [WsSend 7 (BackendError ''Backend error processing message: '' ?e ''Unknown error'')]
       @ trace (handleWebSocketMessage example_lib 7 text_frame connected_sys)"
    by (simp add: e)
  with hyp c t e show ?thesis by simp
qed

subsection \<open>Failure of the AI session\<close>

text \<open>
  Claim C8. When \<open>ai.live.connect\<close> fails, the connection handler (of either server)
  removes the entry it had stored for the socket (the state, in the first server the
  audio buffer), closes the socket with code 1011 and installs no handler: the only call
  it makes is the \<open>close\<close>, whereas on success it makes the three \<open>ws.on\<close> calls. An error
  of the session after the connect (\<open>handleGeminiError\<close>, and \<open>onerror\<close> of the first
  server) closes the socket with code 1011 as well.
\<close>

theorem C8_session_failure_is_fatal:
  "handleNewConnection (Inl error) w s =
     s\<lparr>clientStateMap := (clientStateMap s)(w := None),
       trace := trace s @ [WsClose w 1011 ''Backend connection error'']\<rparr>
   \<and> server_connection (Inl error) w v =
     v\<lparr>audioBuffers := (audioBuffers v)(w := None),
       calls := calls v @ [WsClose w 1011 ''Backend connection error'']\<rparr>
   \<and> handleNewConnection (Inr session) w s =
     s\<lparr>geminiSessionMap := (geminiSessionMap s)(w \<mapsto> session),
       clientStateMap := (clientStateMap s)(w \<mapsto> initialClientState),
       trace := trace s @ [WsOn w ''message'', WsOn w ''close'', WsOn w ''error'']\<rparr>
   \<and> handleGeminiError w s = s\<lparr>trace := trace s @ [WsClose w 1011 ''Gemini API Error'']\<rparr>
   \<and> server_onerror w v = v\<lparr>calls := calls v @ [WsClose w 1011 ''Gemini API Error'']\<rparr>"
  by (simp add: handleNewConnection_def server_connection_def handleGeminiError_def
      server_onerror_def emit_def)

subsection \<open>At most one pipeline\<close>

lemma fresh_connection_eq:
  "fresh_connection = \<lparr>geminiSessionMap = [7 \<mapsto> 3], clientStateMap = [7 \<mapsto> initialClientState],
      trace = [WsOn 7 ''message'', WsOn 7 ''close'', WsOn 7 ''error''], next_handle = 0\<rparr>"
  by (simp add: fresh_connection_def handleNewConnection_def empty_sys_def emit_def)

lemma one_audio_frame:
  "clientStateMap (handle_all example_lib 7 [audio_frame] fresh_connection) 7 =
     Some (initialClientState\<lparr>ffmpegInputStream := Some 0, pcmOutputStream := Some 1,
                               ffmpegProcess := Some 1\<rparr>)"
  by (simp add: handle_all_def handleWebSocketMessage_def dispatch_def handleAudioMessage_def
      configureFFmpegProcess_def emit_def parse_examples lib_examples fresh_connection_eq
      initialClientState_def stopAudioProcessing_def Buffer_alloc_def)

lemma two_audio_frames:
  "trace (handle_all example_lib 7 [audio_frame, audio_frame] fresh_connection) =
     [WsOn 7 ''message'', WsOn 7 ''close'', WsOn 7 ''error'',
      NewPassThrough 0, NewPassThrough 1, FfmpegPipe 2 0 1, StreamEnd 0 [1, 2, 3],
      ProcessKill 1, StreamDestroy 0, StreamDestroy 1,
      NewPassThrough 3, NewPassThrough 4, FfmpegPipe 5 3 4, StreamEnd 3 [1, 2, 3]]"
  by (simp add: handle_all_def handleWebSocketMessage_def dispatch_def handleAudioMessage_def
      configureFFmpegProcess_def emit_def parse_examples lib_examples fresh_connection_eq
      initialClientState_def stopAudioProcessing_def Buffer_alloc_def)

text \<open>
  Claim C3 fails in the code. After an audio frame \<open>ffmpegProcess\<close> holds what
  \<open>.pipe(pcmStream)\<close> returned, the output stream (handle 1), and not the ffmpeg command
  (handle 2). The teardown at the next audio frame destroys both streams and makes its
  \<open>process.kill\<close> on that stream, which ends no command: after two audio frames on a new
  connection the command of the first pipeline is alive next to the command and the two
  streams of the second, so more than one pipeline is alive.
\<close>

theorem C3_stale_command:
  "clientStateMap (handle_all example_lib 7 [audio_frame] fresh_connection) 7 =
     Some (initialClientState\<lparr>ffmpegInputStream := Some 0, pcmOutputStream := Some 1,
                               ffmpegProcess := Some 1\<rparr>)
   \<and> trace (handle_all example_lib 7 [audio_frame, audio_frame] fresh_connection) =
     [WsOn 7 ''message'', WsOn 7 ''close'', WsOn 7 ''error'',
      NewPassThrough 0, NewPassThrough 1, FfmpegPipe 2 0 1, StreamEnd 0 [1, 2, 3],
      ProcessKill 1, StreamDestroy 0, StreamDestroy 1,
      NewPassThrough 3, NewPassThrough 4, FfmpegPipe 5 3 4, StreamEnd 3 [1, 2, 3]]
   \<and> live (trace (handle_all example_lib 7 [audio_frame] fresh_connection)) = ({2}, {0, 1})
   \<and> live (trace (handle_all example_lib 7 [audio_frame, audio_frame] fresh_connection))
       = ({2, 5}, {3, 4})
   \<and> \<not> one_pipeline
         (live (trace (handle_all example_lib 7 [audio_frame, audio_frame] fresh_connection)))"
proof -
  have one: "trace (handle_all example_lib 7 [audio_frame] fresh_connection) =
     [WsOn 7 ''message'', WsOn 7 ''close'', WsOn 7 ''error'',
      NewPassThrough 0, NewPassThrough 1, FfmpegPipe 2 0 1, StreamEnd 0 [1, 2, 3]]"
    by (simp add: handle_all_def handleWebSocketMessage_def dispatch_def handleAudioMessage_def
        configureFFmpegProcess_def emit_def parse_examples lib_examples fresh_connection_eq
        initialClientState_def stopAudioProcessing_def Buffer_alloc_def)
  have l1: "live (trace (handle_all example_lib 7 [audio_frame] fresh_connection)) = ({2}, {0, 1})"
    unfolding one by (auto simp add: live_def)
  have l2: "live (trace (handle_all example_lib 7 [audio_frame, audio_frame] fresh_connection))
       = ({2, 5}, {3, 4})"
    unfolding two_audio_frames by (auto simp add: live_def)
  have "\<not> one_pipeline ({2, 5}, {3, 4})" by (simp add: one_pipeline_def)
  with one_audio_frame two_audio_frames l1 l2 show ?thesis by simp
qed

subsection \<open>The message list of the client\<close>

lemma find_last_below_append:
  "k \<le> length xs \<Longrightarrow> find_last_below P (xs @ ys) k = find_last_below P xs k"
  by (induction k) (simp_all add: nth_append)

lemma findLastIndex_snoc:
  "findLastIndex P (xs @ [x]) = (if P x then Some (length xs) else findLastIndex P xs)"
  by (simp add: findLastIndex_def find_last_below_append)

lemma find_last_below_Some:
  "find_last_below P xs k = Some i \<Longrightarrow> i < k \<and> P (xs ! i)"
  by (induction k) (auto split: if_splits)

lemma findLastIndex_Some:
  "findLastIndex P xs = Some i \<Longrightarrow> i < length xs \<and> P (xs ! i)"
  unfolding findLastIndex_def by (rule find_last_below_Some)

lemma find_last_below_cong:
  "k \<le> length xs \<Longrightarrow> \<forall>j<k. P (ys ! j) = P (xs ! j)
   \<Longrightarrow> find_last_below P ys k = find_last_below P xs k"
  by (induction k) simp_all

lemma findLastIndex_update:
  assumes "P y = P (xs ! i)"
  shows "findLastIndex P (xs[i := y]) = findLastIndex P xs"
proof -
  have "\<forall>j<length xs. P (xs[i := y] ! j) = P (xs ! j)"
  proof (intro allI impI)
    fix j
    assume "j < length xs"
    with assms show "P (xs[i := y] ! j) = P (xs ! j)"
      by (cases "i = j") simp_all
  qed
  from find_last_below_cong [OF le_refl this] show ?thesis
    by (simp add: findLastIndex_def)
qed

lemma text_on_open:
  assumes "findLastIndex (\<lambda>msg. sender msg = Bot \<and> msg_type msg = Text) ms = Some i"
    and "\<not> turnComplete (ms ! i)"
  shows "onmessage u (FromGemini_text d) ms = ms[i := (ms ! i)\<lparr>content := content (ms ! i) @ d\<rparr>]"
  using assms by (simp add: onmessage_def is_open_def)

lemma texts_on_open:
  assumes "findLastIndex (\<lambda>msg. sender msg = Bot \<and> msg_type msg = Text) ms = Some i"
    and "\<not> turnComplete (ms ! i)"
  shows "receive u (map FromGemini_text fs) ms
         = ms[i := (ms ! i)\<lparr>content := content (ms ! i) @ concat fs\<rparr>]"
  using assms
proof (induction fs arbitrary: ms)
  case Nil
  then show ?case by (simp add: receive_def)
next
  case (Cons f fs)
  let ?ms = "ms[i := (ms ! i)\<lparr>content := content (ms ! i) @ f\<rparr>]"
  from findLastIndex_Some [OF Cons.prems(1)] have i: "i < length ms" by simp
  have 1: "findLastIndex (\<lambda>msg. sender msg = Bot \<and> msg_type msg = Text) ?ms = Some i"
    using Cons.prems(1) by (simp add: findLastIndex_update)
  have 2: "\<not> turnComplete (?ms ! i)" using Cons.prems(2) i by simp
  have "receive u (map FromGemini_text (f # fs)) ms = receive u (map FromGemini_text fs) ?ms"
    using text_on_open [OF Cons.prems] by (simp add: receive_def)
  also have "\<dots> = ?ms[i := (?ms ! i)\<lparr>content := content (?ms ! i) @ concat fs\<rparr>]"
    by (rule Cons.IH [OF 1 2])
  also have "\<dots> = ms[i := (ms ! i)\<lparr>content := content (ms ! i) @ concat (f # fs)\<rparr>]"
    using i by simp
  finally show ?case .
qed

lemma text_on_closed:
  assumes "\<not> is_open (findLastIndex (\<lambda>msg. sender msg = Bot \<and> msg_type msg = Text) ms) ms"
  shows "onmessage u (FromGemini_text d) ms =
     close_last_bot (findLastIndex (\<lambda>msg. sender msg = Bot) ms) ms
     @ [\<lparr>sender = Bot, msg_type = Text, content = d, turnComplete = False, isError = False\<rparr>]"
  using assms by (simp add: onmessage_def)

lemma texts_after_first:
  "receive u (map FromGemini_text fs)
     (base @ [\<lparr>sender = Bot, msg_type = Text, content = c, turnComplete = False, isError = False\<rparr>])
   = base @ [\<lparr>sender = Bot, msg_type = Text, content = c @ concat fs, turnComplete = False,
              isError = False\<rparr>]"
proof -
  let ?m = "\<lparr>sender = Bot, msg_type = Text, content = c, turnComplete = False, isError = False\<rparr>"
  have 1: "findLastIndex (\<lambda>msg. sender msg = Bot \<and> msg_type msg = Text) (base @ [?m])
           = Some (length base)"
    by (simp add: findLastIndex_snoc)
  have 2: "\<not> turnComplete ((base @ [?m]) ! length base)" by simp
  from texts_on_open [OF 1 2, of u fs] show ?thesis by simp
qed

lemma turnComplete_closes_last:
  "onmessage u FromGemini_turnComplete
     (base @ [\<lparr>sender = Bot, msg_type = Text, content = c, turnComplete = False, isError = False\<rparr>])
   = base @ [\<lparr>sender = Bot, msg_type = Text, content = c, turnComplete = True, isError = False\<rparr>]"
  by (simp add: onmessage_def close_last_bot_def findLastIndex_snoc)

lemma receive_append: "receive u (xs @ ys) ms = receive u ys (receive u xs ms)"
  by (simp add: receive_def)

lemma receive_Cons: "receive u (x # xs) ms = receive u xs (onmessage u x ms)"
  by (simp add: receive_def)

text \<open>
  Claim C6. Text fragments of the assistant that arrive one after the other are merged
  into one growing message. If no text message of the assistant is open, the first
  fragment opens one (after marking the last message of the assistant complete, should it
  not be) and the following fragments are appended to it; a \<open>turnComplete\<close> frame then
  marks it complete. If a text message of the assistant is open, the fragments are
  appended to it. In particular the fragments \<open>Hel\<close>, \<open>lo\<close>, \<open> world\<close> and a
  \<open>turnComplete\<close> frame, received on an empty list, leave exactly one message of the
  assistant, with content \<open>Hello world\<close>, marked complete.
\<close>

theorem C6_text_fragments_merge:
  "(\<not> is_open (findLastIndex (\<lambda>msg. sender msg = Bot \<and> msg_type msg = Text) ms) ms \<longrightarrow>
      receive u (map FromGemini_text (f # fs)) ms =
        close_last_bot (findLastIndex (\<lambda>msg. sender msg = Bot) ms) ms
        @ [\<lparr>sender = Bot, msg_type = Text, content = concat (f # fs), turnComplete = False,
            isError = False\<rparr>]
      \<and> receive u (map FromGemini_text (f # fs) @ [FromGemini_turnComplete]) ms =
        close_last_bot (findLastIndex (\<lambda>msg. sender msg = Bot) ms) ms
        @ [\<lparr>sender = Bot, msg_type = Text, content = concat (f # fs), turnComplete = True,
            isError = False\<rparr>])
   \<and> (findLastIndex (\<lambda>msg. sender msg = Bot \<and> msg_type msg = Text) ms = Some i
       \<and> \<not> turnComplete (ms ! i) \<longrightarrow>
      receive u (map FromGemini_text fs) ms
        = ms[i := (ms ! i)\<lparr>content := content (ms ! i) @ concat fs\<rparr>])
   \<and> receive u [FromGemini_text ''Hel'', FromGemini_text ''lo'', FromGemini_text '' world'',
                 FromGemini_turnComplete] []
       = [\<lparr>sender = Bot, msg_type = Text, content = ''Hello world'', turnComplete = True,
           isError = False\<rparr>]"
proof (intro conjI impI)
  assume c: "\<not> is_open (findLastIndex (\<lambda>msg. sender msg = Bot \<and> msg_type msg = Text) ms) ms"
  let ?base = "close_last_bot (findLastIndex (\<lambda>msg. sender msg = Bot) ms) ms"
  show r: "receive u (map FromGemini_text (f # fs)) ms =
        ?base @ [\<lparr>sender = Bot, msg_type = Text, content = concat (f # fs), turnComplete = False,
            isError = False\<rparr>]"
    using text_on_closed [OF c, of u f] texts_after_first [of u fs ?base f]
    by (simp add: receive_Cons)
  show "receive u (map FromGemini_text (f # fs) @ [FromGemini_turnComplete]) ms =
        ?base @ [\<lparr>sender = Bot, msg_type = Text, content = concat (f # fs), turnComplete = True,
            isError = False\<rparr>]"
    unfolding receive_append r
    using turnComplete_closes_last [of u ?base "concat (f # fs)"] by (simp add: receive_def)
next
  assume "findLastIndex (\<lambda>msg. sender msg = Bot \<and> msg_type msg = Text) ms = Some i
       \<and> \<not> turnComplete (ms ! i)"
  then show "receive u (map FromGemini_text fs) ms
        = ms[i := (ms ! i)\<lparr>content := content (ms ! i) @ concat fs\<rparr>]"
    using texts_on_open [of ms i u fs] by blast
next
  show "receive u [FromGemini_text ''Hel'', FromGemini_text ''lo'', FromGemini_text '' world'',
                 FromGemini_turnComplete] []
       = [\<lparr>sender = Bot, msg_type = Text, content = ''Hello world'', turnComplete = True,
           isError = False\<rparr>]"
    by (simp add: receive_def onmessage_def is_open_def close_last_bot_def findLastIndex_def)
qed

theorem C6_text_fragments_merge_witness:
  "\<not> is_open (findLastIndex (\<lambda>msg. sender msg = Bot \<and> msg_type msg = Text) []) []
   \<and> receive (\<lambda>a m. None) [FromGemini_text ''Hel'', FromGemini_text ''lo'',
                                 FromGemini_text '' world''] []
       = [\<lparr>sender = Bot, msg_type = Text, content = ''Hello world'', turnComplete = False,
           isError = False\<rparr>]
   \<and> findLastIndex (\<lambda>msg. sender msg = Bot \<and> msg_type msg = Text)
         [\<lparr>sender = Bot, msg_type = Text, content = ''Hel'', turnComplete = False,
           isError = False\<rparr>] = Some 0
   \<and> \<not> turnComplete ([\<lparr>sender = Bot, msg_type = Text, content = ''Hel'',
                          turnComplete = False, isError = False\<rparr>] ! 0)
   \<and> receive (\<lambda>a m. None) [FromGemini_text ''lo'', FromGemini_text '' world'']
         [\<lparr>sender = Bot, msg_type = Text, content = ''Hel'', turnComplete = False,
           isError = False\<rparr>]
       = [\<lparr>sender = Bot, msg_type = Text, content = ''Hello world'', turnComplete = False,
           isError = False\<rparr>]"
proof -
  let ?hel = "\<lparr>sender = Bot, msg_type = Text, content = ''Hel'', turnComplete = False,
               isError = False\<rparr>"
  have h1: "\<not> is_open (findLastIndex (\<lambda>msg. sender msg = Bot \<and> msg_type msg = Text) []) []"
    by (simp add: is_open_def findLastIndex_def)
  have h2: "findLastIndex (\<lambda>msg. sender msg = Bot \<and> msg_type msg = Text) [?hel] = Some 0
            \<and> \<not> turnComplete ([?hel] ! 0)"
    by (simp add: findLastIndex_def)
  note a = C6_text_fragments_merge [of "[]" "\<lambda>a m. None" "''Hel''" "[''lo'', '' world'']",
      THEN conjunct1, THEN mp, OF h1, THEN conjunct1]
  note b = C6_text_fragments_merge [of "[?hel]" "\<lambda>a m. None" "''x''" "[''lo'', '' world'']" 0,
      THEN conjunct2, THEN conjunct1, THEN mp, OF h2]
  from a have a': "receive (\<lambda>a m. None) [FromGemini_text ''Hel'', FromGemini_text ''lo'',
                                 FromGemini_text '' world''] []
       = [\<lparr>sender = Bot, msg_type = Text, content = ''Hello world'', turnComplete = False,
           isError = False\<rparr>]"
    by (simp add: close_last_bot_def findLastIndex_def)
  from b have b': "receive (\<lambda>a m. None) [FromGemini_text ''lo'', FromGemini_text '' world'']
         [?hel]
       = [\<lparr>sender = Bot, msg_type = Text, content = ''Hello world'', turnComplete = False,
           isError = False\<rparr>]"
    by simp
  from h1 h2 a' b' show ?thesis by blast
qed

subsection \<open>Truncating audio data for the log\<close>

lemma thread_Cons:
  "thread (f # fs) b =
     (fst (f b) # fst (thread fs (b + length (snd (f b)))),
      snd (f b) @ snd (thread fs (b + length (snd (f b)))))"
  by (simp add: case_prod_beta)

lemma thread_lengths:
  assumes "\<And>t b. t \<in> set ts \<Longrightarrow> length (snd (parse_at t b)) = ncells t"
  shows "thread (map parse_at ts) b = (roots ts b, cellsl ts b)"
  using assms
proof (induction ts arbitrary: b)
  case Nil
  show ?case by simp
next
  case (Cons t ts)
  have l: "length (snd (parse_at t b)) = ncells t" by (rule Cons.prems) simp
  have "thread (map parse_at ts) (b + ncells t) = (roots ts (b + ncells t), cellsl ts (b + ncells t))"
    by (rule Cons.IH) (simp add: Cons.prems)
  with l show ?case by (simp add: thread_Cons root_at_def cells_at_def del: thread.simps)
qed

lemma roots_length [simp]: "length (roots ts b) = length ts"
  by (induction ts arbitrary: b) simp_all

lemma cellsl_length_aux:
  assumes "\<And>t b. t \<in> set ts \<Longrightarrow> length (cells_at t b) = ncells t"
  shows "length (cellsl ts b) = ncellsl ts"
  using assms by (induction ts arbitrary: b) (simp_all add: ncellsl_def)

lemma thread_snd: "thread (map (\<lambda>kt. parse_at (snd kt)) kts) b = thread (map parse_at (map snd kts)) b"
  by (simp add: comp_def)

lemma parse_at_JArr:
  "parse_at (JArr ts) b =
     (VRef (b + length (snd (thread (map parse_at ts) b))),
      snd (thread (map parse_at ts) b)
      @ [Cell True (zip (map index_key [0..<length (fst (thread (map parse_at ts) b))])
                        (fst (thread (map parse_at ts) b)))])"
  by (simp add: case_prod_beta)

lemma parse_at_JObj:
  "parse_at (JObj kts) b =
     (VRef (b + length (snd (thread (map (parse_at \<circ> snd) kts) b))),
      snd (thread (map (parse_at \<circ> snd) kts) b)
      @ [Cell False (zip (map fst kts) (fst (thread (map (parse_at \<circ> snd) kts) b)))])"
  by (simp add: case_prod_beta comp_def)

lemma cells_length [simp]: "length (cells_at t b) = ncells t"
proof (induction t arbitrary: b)
  case (JArr ts)
  then have a: "\<And>t b. t \<in> set ts \<Longrightarrow> length (snd (parse_at t b)) = ncells t"
    by (simp add: cells_at_def)
  have "length (cellsl ts b) = ncellsl ts"
    by (rule cellsl_length_aux) (simp add: JArr)
  with thread_lengths [OF a, where b = b]
  show ?case by (simp add: cells_at_def ncellsl_def parse_at_JArr del: parse_at.simps)
next
  case (JObj kts)
  then have a: "\<And>t b. t \<in> set (map snd kts) \<Longrightarrow> length (snd (parse_at t b)) = ncells t"
    by (auto simp add: cells_at_def)
  then have c: "\<And>t b. t \<in> set (map snd kts) \<Longrightarrow> length (cells_at t b) = ncells t"
    by (simp add: cells_at_def)
  have t: "thread (map parse_at (map snd kts)) b
           = (roots (map snd kts) b, cellsl (map snd kts) b)"
    by (rule thread_lengths) (rule a)
  have l: "length (cellsl (map snd kts) b) = ncellsl (map snd kts)"
    by (rule cellsl_length_aux) (rule c)
  have e: "thread (map (parse_at \<circ> snd) kts) b = thread (map parse_at (map snd kts)) b"
    by simp
  have n: "ncells (JObj kts) = Suc (ncellsl (map snd kts))"
    by (simp add: ncellsl_def comp_def)
  show ?case unfolding cells_at_def parse_at_JObj e t n using l by simp
qed (simp_all add: cells_at_def)

lemma thread_parse: "thread (map parse_at ts) b = (roots ts b, cellsl ts b)"
  by (rule thread_lengths) (simp add: cells_at_def [symmetric])

lemma cellsl_length [simp]: "length (cellsl ts b) = ncellsl ts"
  by (rule cellsl_length_aux) simp

lemma root_JArr: "root_at (JArr ts) b = VRef (b + ncellsl ts)"
  and cells_JArr: "cells_at (JArr ts) b
        = cellsl ts b @ [Cell True (zip (map index_key [0..<length ts]) (roots ts b))]"
  by (simp_all add: root_at_def cells_at_def thread_parse parse_at_JArr del: parse_at.simps)

lemma thread_parse_snd:
  "thread (map (parse_at \<circ> snd) kts) b = (roots (map snd kts) b, cellsl (map snd kts) b)"
  using thread_parse [of "map snd kts" b] by simp

lemma root_JObj: "root_at (JObj kts) b = VRef (b + ncellsl (map snd kts))"
  and cells_JObj: "cells_at (JObj kts) b
        = cellsl (map snd kts) b @ [Cell False (zip (map fst kts) (roots (map snd kts) b))]"
  by (simp_all add: root_at_def cells_at_def thread_parse_snd parse_at_JObj del: parse_at.simps)

lemma root_prim [simp]:
  "root_at JNull b = VNull" "root_at (JBool x) b = VBool x" "root_at (JNum y) b = VNum y"
  "root_at (JStr s) b = VStr s"
  and cells_prim [simp]:
  "cells_at JNull b = []" "cells_at (JBool x) b = []" "cells_at (JNum y) b = []" "cells_at (JStr s) b = []"
  by (simp_all add: root_at_def cells_at_def)

lemma ncellsl_simps [simp]:
  "ncellsl [] = 0" "ncellsl (t # ts) = ncells t + ncellsl ts"
  "ncellsl (xs @ ys) = ncellsl xs + ncellsl ys"
  by (simp_all add: ncellsl_def)

lemma roots_append: "roots (xs @ ys) b = roots xs b @ roots ys (b + ncellsl xs)"
  by (induction xs arbitrary: b) (simp_all add: add.assoc)

lemma cellsl_append: "cellsl (xs @ ys) b = cellsl xs b @ cellsl ys (b + ncellsl xs)"
  by (induction xs arbitrary: b) (simp_all add: add.assoc)

lemma root_defined: "root_at t b \<noteq> VUndefined"
  by (cases t) (simp_all add: root_JArr root_JObj)

lemma roots_defined: "v \<in> set (roots ts b) \<Longrightarrow> v \<noteq> VUndefined"
proof (induction ts arbitrary: b)
  case Nil
  then show ?case by simp
next
  case (Cons t ts)
  from Cons.prems have "v = root_at t b \<or> v \<in> set (roots ts (b + ncells t))" by simp
  then show ?case using root_defined [of t b] Cons.IH by metis
qed

lemma serialised_props_roots [simp]:
  "serialised_props (Cell f (zip ks (roots ts b))) = zip ks (roots ts b)"
proof -
  have "\<forall>kv\<in>set (zip ks (roots ts b)). snd kv \<noteq> VUndefined"
    using roots_defined by (auto dest: set_zip_rightD)
  then show ?thesis by (simp add: serialised_props_def)
qed

lemma those_map_Some: "those (map Some xs) = Some xs"
  by (induction xs) simp_all

lemma those_mono:
  assumes "those (map f xs) = Some ys"
    and "\<And>x y. x \<in> set xs \<Longrightarrow> f x = Some y \<Longrightarrow> g x = Some y"
  shows "those (map g xs) = Some ys"
  using assms
proof (induction xs arbitrary: ys)
  case Nil
  then show ?case by simp
next
  case (Cons x xs)
  from Cons.prems(1) obtain y ys' where y: "f x = Some y" and ys': "those (map f xs) = Some ys'"
    and ys: "ys = y # ys'"
    by (auto split: option.splits)
  from Cons.prems(2) [OF _ y] have "g x = Some y" by simp
  moreover have "those (map g xs) = Some ys'"
    by (rule Cons.IH [OF ys']) (simp add: Cons.prems(2))
  ultimately show ?case by (simp add: ys)
qed

lemma stringify_mono:
  "stringify n st v = Some t \<Longrightarrow> stringify (n + k) (st @ ext) v = Some t"
proof (induction n arbitrary: v t)
  case 0
  then show ?case by (cases v) simp_all
next
  case (Suc n)
  show ?case
  proof (cases v)
    case (VRef a)
    with Suc.prems have a: "a < length st" by (simp split: if_splits)
    with Suc.prems VRef obtain ts where
      ts: "those (map (stringify n st) (map snd (serialised_props (st ! a)))) = Some ts"
      and t: "t = (if is_array (st ! a) then JArr ts
                   else JObj (zip (map fst (serialised_props (st ! a))) ts))"
      by (auto split: option.splits)
    have "those (map (stringify (n + k) (st @ ext)) (map snd (serialised_props (st ! a)))) = Some ts"
      by (rule those_mono [OF ts]) (rule Suc.IH)
    with a t VRef show ?thesis by (simp add: nth_append)
  next
    case VUndefined with Suc.prems show ?thesis by simp
  next
    case VNull with Suc.prems show ?thesis by simp
  next
    case (VBool x) with Suc.prems show ?thesis by simp
  next
    case (VNum x) with Suc.prems show ?thesis by simp
  next
    case (VStr x) with Suc.prems show ?thesis by simp
  qed
qed

lemma ncells_le_ncellsl: "t \<in> set ts \<Longrightarrow> ncells t \<le> ncellsl ts"
  unfolding ncellsl_def by (simp add: member_le_sum_list)

lemma stringify_children:
  assumes "\<And>t n pre ext. t \<in> set ts \<Longrightarrow> ncells t \<le> n \<Longrightarrow>
             stringify n (pre @ cells_at t (length pre) @ ext) (root_at t (length pre)) = Some t"
    and "\<forall>t\<in>set ts. ncells t \<le> n"
  shows "map (stringify n (pre @ cellsl ts (length pre) @ ext)) (roots ts (length pre))
         = map Some ts"
  using assms
proof (induction ts arbitrary: pre)
  case Nil
  show ?case by simp
next
  case (Cons t ts)
  have h: "stringify n (pre @ cells_at t (length pre) @ cellsl ts (length pre + ncells t) @ ext)
             (root_at t (length pre)) = Some t"
    by (rule Cons.prems(1)) (simp_all add: Cons.prems(2))
  have "map (stringify n ((pre @ cells_at t (length pre)) @ cellsl ts (length (pre @ cells_at t (length pre))) @ ext))
          (roots ts (length (pre @ cells_at t (length pre)))) = map Some ts"
    by (rule Cons.IH) (simp_all add: Cons.prems)
  with h show ?case by simp
qed

lemma node_cell:
  assumes "length front = p"
  shows "(front @ [c] @ ext) ! p = c" and "p < length (front @ [c] @ ext)"
    and "(front @ [c] @ ext)[p := c'] = front @ [c'] @ ext"
  using assms by (auto simp add: nth_append)

lemma stringify_cells:
  "ncells t \<le> n \<Longrightarrow>
   stringify n (pre @ cells_at t (length pre) @ ext) (root_at t (length pre)) = Some t"
proof (induction t arbitrary: n pre ext)
  case (JArr ts)
  from JArr.prems obtain n' where n: "n = Suc n'" and n': "ncellsl ts \<le> n'"
    by (cases n) (simp_all add: ncellsl_def)
  let ?c = "Cell True (zip (map index_key [0..<length ts]) (roots ts (length pre)))"
  let ?S = "pre @ cells_at (JArr ts) (length pre) @ ext"
  have S: "?S = (pre @ cellsl ts (length pre)) @ [?c] @ ext" by (simp add: cells_JArr)
  have l: "length (pre @ cellsl ts (length pre)) = length pre + ncellsl ts" by simp
  have c: "?S ! (length pre + ncellsl ts) = ?c" and b: "length pre + ncellsl ts < length ?S"
    unfolding S by (rule node_cell [OF l])+
  have "\<forall>t\<in>set ts. ncells t \<le> n'" using n' ncells_le_ncellsl by fastforce
  then have "map (stringify n' (pre @ cellsl ts (length pre) @ [?c] @ ext)) (roots ts (length pre))
             = map Some ts"
    by (intro stringify_children) (simp_all add: JArr.IH)
  then have "those (map (stringify n' ?S) (roots ts (length pre))) = Some ts"
    by (simp add: cells_JArr those_map_Some)
  with c b show ?case by (simp add: n root_JArr)
next
  case (JObj kts)
  from JObj.prems obtain n' where n: "n = Suc n'" and n': "ncellsl (map snd kts) \<le> n'"
    by (cases n) (simp_all add: ncellsl_def comp_def)
  let ?ts = "map snd kts"
  let ?c = "Cell False (zip (map fst kts) (roots ?ts (length pre)))"
  let ?S = "pre @ cells_at (JObj kts) (length pre) @ ext"
  have S: "?S = (pre @ cellsl ?ts (length pre)) @ [?c] @ ext" by (simp add: cells_JObj)
  have l: "length (pre @ cellsl ?ts (length pre)) = length pre + ncellsl ?ts" by simp
  have c: "?S ! (length pre + ncellsl ?ts) = ?c" and b: "length pre + ncellsl ?ts < length ?S"
    unfolding S by (rule node_cell [OF l])+
  have ih: "\<And>t n pre ext. t \<in> set ?ts \<Longrightarrow> ncells t \<le> n \<Longrightarrow>
             stringify n (pre @ cells_at t (length pre) @ ext) (root_at t (length pre)) = Some t"
    using JObj.IH by auto
  have "\<forall>t\<in>set ?ts. ncells t \<le> n'" using n' ncells_le_ncellsl by fastforce
  then have "map (stringify n' (pre @ cellsl ?ts (length pre) @ [?c] @ ext)) (roots ?ts (length pre))
             = map Some ?ts"
    by (intro stringify_children ih)
  then have "those (map (stringify n' ?S) (roots ?ts (length pre))) = those (map Some ?ts)"
    by (simp add: cells_JObj)
  also have "\<dots> = Some ?ts" by (rule those_map_Some)
  finally have "those (map (stringify n' ?S) (roots ?ts (length pre))) = Some ?ts" .
  with c b show ?case by (simp add: n root_JObj zip_map_fst_snd)
qed simp_all

lemma truncate_prop_ncells [simp]: "ncells (truncate_prop m k t) = ncells t"
  by (cases t) (simp_all add: truncate_prop_def)

lemma ncells_expected [simp]: "ncells (expected m t) = ncells t"
proof (induction t)
  case (JArr ts)
  then have eq: "map (ncells \<circ> expected m) ts = map ncells ts" by (intro map_cong) simp_all
  show ?case by (simp add: eq)
next
  case (JObj kts)
  then have eq: "map (\<lambda>kt. ncells (expected m (snd kt))) kts = map (\<lambda>kt. ncells (snd kt)) kts"
    by (intro map_cong) auto
  show ?case by (simp add: comp_def eq)
qed simp_all

lemma exp_children_simps [simp]:
  "exp_children m [] ts = []" "exp_children m ks [] = []"
  "exp_children m (k # ks) (t # ts) = truncate_prop m k (expected m t) # exp_children m ks ts"
  by (simp_all add: exp_children_def)

lemma exp_children_length [simp]:
  "length ks = length ts \<Longrightarrow> length (exp_children m ks ts) = length ts"
  by (simp add: exp_children_def)

lemma root_node_expected:
  "root_at (expected m (JArr ts)) b = root_at (JArr ts) b"
  "root_at (expected m (JObj kts)) b = root_at (JObj kts) b"
proof -
  have "ncells (expected m (JArr ts)) = ncells (JArr ts)" by (rule ncells_expected)
  then show "root_at (expected m (JArr ts)) b = root_at (JArr ts) b"
    by (simp add: root_JArr ncellsl_def)
  have "ncells (expected m (JObj kts)) = ncells (JObj kts)" by (rule ncells_expected)
  then show "root_at (expected m (JObj kts)) b = root_at (JObj kts) b"
    by (simp add: root_JObj ncellsl_def comp_def)
qed

lemma traverse_step:
  assumes ih: "\<And>n pre ext. ncells t \<le> n \<Longrightarrow>
            traverse n m (root_at t (length pre)) (pre @ cells_at t (length pre) @ ext)
            = Some (pre @ cells_at (expected m t) (length pre) @ ext)"
    and n: "ncells t \<le> n"
    and p: "p = length pre + ncells t + length mid"
    and i: "i = length kvs1"
  shows "traverse_keys n m p (i # is)
           (pre @ cells_at t (length pre) @ mid
            @ [Cell f (kvs1 @ (k, root_at t (length pre)) # kvs2)] @ ext)
         = traverse_keys n m p is
           (pre @ cells_at (truncate_prop m k (expected m t)) (length pre) @ mid
            @ [Cell f (kvs1 @ (k, root_at (truncate_prop m k (expected m t)) (length pre)) # kvs2)]
            @ ext)"
proof -
  let ?c = "Cell f (kvs1 @ (k, root_at t (length pre)) # kvs2)"
  let ?S = "pre @ cells_at t (length pre) @ mid @ [?c] @ ext"
  have S: "?S = (pre @ cells_at t (length pre) @ mid) @ [?c] @ ext" by simp
  have l: "length (pre @ cells_at t (length pre) @ mid) = p" by (simp add: p)
  have c: "?S ! p = ?c" unfolding S by (rule node_cell [OF l])
  have u: "\<And>c'. ?S[p := c'] = (pre @ cells_at t (length pre) @ mid) @ [c'] @ ext"
    unfolding S by (rule node_cell [OF l])
  have kv: "props ?c ! i = (k, root_at t (length pre))" by (simp add: i)
  show ?thesis
  proof (cases t)
    case (JStr s)
    have sp: "set_prop (Cell f (kvs1 @ (k, VStr s) # kvs2)) i (VStr (truncated m s))
              = Cell f (kvs1 @ (k, VStr (truncated m s)) # kvs2)"
      by (simp add: set_prop_def i)
    show ?thesis
      unfolding traverse_keys.simps c kv Let_def
      using u [of "set_prop ?c i (VStr (truncated m s))"]
      by (simp add: JStr truncate_prop_def sp)
  next
    case JNull
    show ?thesis unfolding traverse_keys.simps c kv Let_def
      by (simp add: JNull truncate_prop_def)
  next
    case (JBool x)
    show ?thesis unfolding traverse_keys.simps c kv Let_def
      by (simp add: JBool truncate_prop_def)
  next
    case (JNum x)
    show ?thesis unfolding traverse_keys.simps c kv Let_def
      by (simp add: JNum truncate_prop_def)
  next
    case (JArr ts)
    have r: "root_at t (length pre) = VRef (length pre + ncellsl ts)" by (simp add: JArr root_JArr)
    have e: "truncate_prop m k (expected m t) = expected m t" by (simp add: JArr truncate_prop_def)
    have re: "root_at (expected m t) (length pre) = root_at t (length pre)"
      unfolding JArr by (rule root_node_expected)
    from ih [OF n, of pre "mid @ [?c] @ ext"]
    have "traverse n m (VRef (length pre + ncellsl ts)) ?S
          = Some (pre @ cells_at (expected m t) (length pre) @ mid @ [?c] @ ext)"
      by (simp add: r)
    then show ?thesis
      unfolding traverse_keys.simps c kv Let_def e re
      by (simp add: r)
  next
    case (JObj kts)
    have r: "root_at t (length pre) = VRef (length pre + ncellsl (map snd kts))"
      by (simp add: JObj root_JObj)
    have e: "truncate_prop m k (expected m t) = expected m t" by (simp add: JObj truncate_prop_def)
    have re: "root_at (expected m t) (length pre) = root_at t (length pre)"
      unfolding JObj by (rule root_node_expected)
    from ih [OF n, of pre "mid @ [?c] @ ext"]
    have "traverse n m (VRef (length pre + ncellsl (map snd kts))) ?S
          = Some (pre @ cells_at (expected m t) (length pre) @ mid @ [?c] @ ext)"
      by (simp add: r)
    then show ?thesis
      unfolding traverse_keys.simps c kv Let_def e re
      by (simp add: r)
  qed
qed

lemma traverse_children:
  assumes "\<And>t n pre ext. t \<in> set todo \<Longrightarrow> ncells t \<le> n \<Longrightarrow>
            traverse n m (root_at t (length pre)) (pre @ cells_at t (length pre) @ ext)
            = Some (pre @ cells_at (expected m t) (length pre) @ ext)"
    and "\<forall>t\<in>set todo. ncells t \<le> n"
    and "length kd = length dn" and "length kt = length todo"
  shows "traverse_keys n m (length pre + ncellsl dn + ncellsl todo)
           [length dn..<length dn + length todo]
           (pre @ cellsl dn (length pre) @ cellsl todo (length pre + ncellsl dn)
            @ [Cell f (zip (kd @ kt)
                         (roots dn (length pre) @ roots todo (length pre + ncellsl dn)))]
            @ ext)
         = Some (pre @ cellsl dn (length pre)
                 @ cellsl (exp_children m kt todo) (length pre + ncellsl dn)
                 @ [Cell f (zip (kd @ kt)
                              (roots dn (length pre)
                               @ roots (exp_children m kt todo) (length pre + ncellsl dn)))]
                 @ ext)"
  using assms
proof (induction todo arbitrary: dn kd kt)
  case Nil
  then show ?case by simp
next
  case (Cons t rest)
  from Cons.prems(4) obtain k krest where kt: "kt = k # krest" and kr: "length krest = length rest"
    by (cases kt) simp_all
  let ?b = "length pre"
  let ?d = "ncellsl dn"
  let ?t' = "truncate_prop m k (expected m t)"
  let ?pre0 = "pre @ cellsl dn ?b"
  let ?mid = "cellsl rest (?b + ?d + ncells t)"
  let ?kvs1 = "zip kd (roots dn ?b)"
  let ?kvs2 = "zip krest (roots rest (?b + ?d + ncells t))"
  let ?p = "?b + ?d + ncellsl (t # rest)"
  let ?is = "[Suc (length dn)..<Suc (length dn) + length rest]"
  have l0: "length ?pre0 = ?b + ?d" by simp
  have z: "\<And>v. zip (kd @ k # krest) (roots dn ?b @ v # roots rest (?b + ?d + ncells t))
               = ?kvs1 @ (k, v) # ?kvs2"
    using Cons.prems(3) by simp
  have zg: "\<And>v ws. zip (kd @ k # krest) (roots dn ?b @ v # ws)
               = zip kd (roots dn ?b) @ (k, v) # zip krest ws"
    using Cons.prems(3) by simp
  have "[length dn..<length dn + length (t # rest)]
        = length dn # [Suc (length dn)..<length dn + length (t # rest)]"
    by (rule upt_conv_Cons) simp
  moreover have "length dn + length (t # rest) = Suc (length dn) + length rest" by simp
  ultimately have upt: "[length dn..<length dn + length (t # rest)] = length dn # ?is"
    by (simp only:)
  have n: "ncells t \<le> n" using Cons.prems(2) by simp
  have ih_t: "\<And>n pre ext. ncells t \<le> n \<Longrightarrow>
            traverse n m (root_at t (length pre)) (pre @ cells_at t (length pre) @ ext)
            = Some (pre @ cells_at (expected m t) (length pre) @ ext)"
    by (rule Cons.prems(1)) simp_all
  have p: "?p = length ?pre0 + ncells t + length ?mid" by simp
  have i: "length dn = length ?kvs1" using Cons.prems(3) by simp
  note step = traverse_step [of t m n ?p ?pre0 ?mid "length dn" ?kvs1 ?is f k ?kvs2 ext,
      OF ih_t n p i]
  have S: "pre @ cellsl dn ?b @ cellsl (t # rest) (?b + ?d)
            @ [Cell f (zip (kd @ kt) (roots dn ?b @ roots (t # rest) (?b + ?d)))] @ ext
           = ?pre0 @ cells_at t (length ?pre0) @ ?mid
             @ [Cell f (?kvs1 @ (k, root_at t (length ?pre0)) # ?kvs2)] @ ext"
    by (simp add: kt z)
  have ih_rest: "traverse_keys n m (?b + ncellsl (dn @ [?t']) + ncellsl rest)
           [length (dn @ [?t'])..<length (dn @ [?t']) + length rest]
           (pre @ cellsl (dn @ [?t']) ?b @ cellsl rest (?b + ncellsl (dn @ [?t']))
            @ [Cell f (zip ((kd @ [k]) @ krest)
                         (roots (dn @ [?t']) ?b @ roots rest (?b + ncellsl (dn @ [?t']))))]
            @ ext)
         = Some (pre @ cellsl (dn @ [?t']) ?b
                 @ cellsl (exp_children m krest rest) (?b + ncellsl (dn @ [?t']))
                 @ [Cell f (zip ((kd @ [k]) @ krest)
                              (roots (dn @ [?t']) ?b
                               @ roots (exp_children m krest rest) (?b + ncellsl (dn @ [?t']))))]
                 @ ext)"
    by (rule Cons.IH) (simp_all add: Cons.prems kr)
  have S1: "pre @ cellsl (dn @ [?t']) ?b @ cellsl rest (?b + ncellsl (dn @ [?t']))
            @ [Cell f (zip ((kd @ [k]) @ krest)
                         (roots (dn @ [?t']) ?b @ roots rest (?b + ncellsl (dn @ [?t']))))]
            @ ext
          = ?pre0 @ cells_at ?t' (length ?pre0) @ ?mid
            @ [Cell f (?kvs1 @ (k, root_at ?t' (length ?pre0)) # ?kvs2)] @ ext"
    by (simp add: cellsl_append roots_append zg add.assoc)
  have T: "pre @ cellsl (dn @ [?t']) ?b
                 @ cellsl (exp_children m krest rest) (?b + ncellsl (dn @ [?t']))
                 @ [Cell f (zip ((kd @ [k]) @ krest)
                              (roots (dn @ [?t']) ?b
                               @ roots (exp_children m krest rest) (?b + ncellsl (dn @ [?t']))))]
                 @ ext
         = pre @ cellsl dn ?b @ cellsl (exp_children m kt (t # rest)) (?b + ?d)
                 @ [Cell f (zip (kd @ kt)
                              (roots dn ?b @ roots (exp_children m kt (t # rest)) (?b + ?d)))]
                 @ ext"
    by (simp add: cellsl_append roots_append kt add.assoc)
  have P: "?b + ncellsl (dn @ [?t']) + ncellsl rest = ?p" by simp
  have I: "[length (dn @ [?t'])..<length (dn @ [?t']) + length rest] = ?is" by simp
  have "traverse_keys n m ?p [length dn..<length dn + length (t # rest)]
          (pre @ cellsl dn ?b @ cellsl (t # rest) (?b + ?d)
            @ [Cell f (zip (kd @ kt) (roots dn ?b @ roots (t # rest) (?b + ?d)))] @ ext)
        = traverse_keys n m ?p (length dn # ?is)
          (?pre0 @ cells_at t (length ?pre0) @ ?mid
             @ [Cell f (?kvs1 @ (k, root_at t (length ?pre0)) # ?kvs2)] @ ext)"
    by (simp only: upt S)
  also have "\<dots> = traverse_keys n m ?p ?is
          (?pre0 @ cells_at ?t' (length ?pre0) @ ?mid
            @ [Cell f (?kvs1 @ (k, root_at ?t' (length ?pre0)) # ?kvs2)] @ ext)"
    by (rule step)
  also have "\<dots> = Some (pre @ cellsl dn ?b @ cellsl (exp_children m kt (t # rest)) (?b + ?d)
                 @ [Cell f (zip (kd @ kt)
                              (roots dn ?b @ roots (exp_children m kt (t # rest)) (?b + ?d)))]
                 @ ext)"
    using ih_rest unfolding S1 T P I .
  finally show ?case .
qed

lemma index_key_last: "\<exists>xs. index_key i = xs @ [''0123456789'' ! (i mod 10)]"
proof (cases "i < 10")
  case True
  then have "index_key i = [] @ [''0123456789'' ! (i mod 10)]"
    by (subst index_key.simps) simp
  then show ?thesis by blast
next
  case False
  then have "index_key i = index_key (i div 10) @ [''0123456789'' ! (i mod 10)]"
    by (subst index_key.simps) simp
  then show ?thesis by blast
qed

lemma digit_not_letter:
  assumes "j < 10"
  shows "''0123456789'' ! j \<noteq> CHR ''a''" and "''0123456789'' ! j \<noteq> CHR ''o''"
proof -
  from assms have "j \<in> {0, 1, 2, 3, 4, 5, 6, 7, 8, 9}" by auto
  then show "''0123456789'' ! j \<noteq> CHR ''a''" and "''0123456789'' ! j \<noteq> CHR ''o''"
    by auto
qed

lemma index_key_not_target: "\<not> is_target_key (index_key i)"
proof -
  obtain xs where x: "index_key i = xs @ [''0123456789'' ! (i mod 10)]"
    using index_key_last by blast
  have j: "i mod 10 < 10" by simp
  have "last (index_key i) = ''0123456789'' ! (i mod 10)" by (simp add: x)
  with digit_not_letter [OF j]
  have "last (index_key i) \<noteq> CHR ''a''" and "last (index_key i) \<noteq> CHR ''o''"
    by simp_all
  then have "index_key i \<noteq> ''data''" and "index_key i \<noteq> ''audio''"
    and "index_key i \<noteq> ''audioData''"
    by auto
  then show ?thesis by (simp add: is_target_key_def)
qed

lemma truncate_prop_other_key: "\<not> is_target_key k \<Longrightarrow> truncate_prop m k t = t"
  by (cases t) (simp_all add: truncate_prop_def must_truncate_def)

lemma exp_children_other_keys:
  "\<forall>k\<in>set ks. \<not> is_target_key k \<Longrightarrow> length ks = length ts
   \<Longrightarrow> exp_children m ks ts = map (expected m) ts"
proof (induction ts arbitrary: ks)
  case Nil
  then show ?case by simp
next
  case (Cons t ts)
  then obtain k ks' where "ks = k # ks'" by (cases ks) simp_all
  with Cons show ?case by (simp add: truncate_prop_other_key)
qed

lemma exp_children_index:
  "exp_children m (map index_key [0..<length ts]) ts = map (expected m) ts"
  by (rule exp_children_other_keys) (auto simp add: index_key_not_target)

lemma exp_children_props:
  "map (\<lambda>kt. (fst kt, truncate_prop m (fst kt) (expected m (snd kt)))) kts
   = zip (map fst kts) (exp_children m (map fst kts) (map snd kts))"
  by (induction kts) simp_all

lemma traverse_cells:
  "ncells t \<le> n \<Longrightarrow>
   traverse n m (root_at t (length pre)) (pre @ cells_at t (length pre) @ ext)
   = Some (pre @ cells_at (expected m t) (length pre) @ ext)"
proof (induction t arbitrary: n pre ext)
  case (JArr ts)
  from JArr.prems obtain n' where n: "n = Suc n'" and n': "ncellsl ts \<le> n'"
    by (cases n) (simp_all add: ncellsl_def)
  let ?ks = "map index_key [0..<length ts]"
  let ?c = "Cell True (zip ?ks (roots ts (length pre)))"
  let ?S = "pre @ cells_at (JArr ts) (length pre) @ ext"
  have S: "?S = (pre @ cellsl ts (length pre)) @ [?c] @ ext" by (simp add: cells_JArr)
  have l: "length (pre @ cellsl ts (length pre)) = length pre + ncellsl ts" by simp
  have c: "?S ! (length pre + ncellsl ts) = ?c" and b: "length pre + ncellsl ts < length ?S"
    unfolding S by (rule node_cell [OF l])+
  have fuel: "\<forall>t\<in>set ts. ncells t \<le> n'" using n' ncells_le_ncellsl by fastforce
  have loop: "traverse_keys n' m (length pre + ncellsl [] + ncellsl ts)
           [length ([]::json list)..<length ([]::json list) + length ts]
           (pre @ cellsl [] (length pre) @ cellsl ts (length pre + ncellsl [])
            @ [Cell True (zip ([] @ ?ks)
                         (roots [] (length pre) @ roots ts (length pre + ncellsl [])))]
            @ ext)
         = Some (pre @ cellsl [] (length pre)
                 @ cellsl (exp_children m ?ks ts) (length pre + ncellsl [])
                 @ [Cell True (zip ([] @ ?ks)
                              (roots [] (length pre)
                               @ roots (exp_children m ?ks ts) (length pre + ncellsl [])))]
                 @ ext)"
    by (rule traverse_children) (simp_all add: JArr.IH fuel)
  have e: "expected m (JArr ts) = JArr (map (expected m) ts)" by simp
  have "traverse n m (root_at (JArr ts) (length pre)) ?S
        = traverse_keys n' m (length pre + ncellsl ts) [0..<length ts] ?S"
    using b c by (simp add: n root_JArr)
  also have "\<dots> = Some (pre @ cellsl (map (expected m) ts) (length pre)
                 @ [Cell True (zip ?ks (roots (map (expected m) ts) (length pre)))] @ ext)"
    using loop by (simp add: cells_JArr exp_children_index)
  also have "\<dots> = Some (pre @ cells_at (expected m (JArr ts)) (length pre) @ ext)"
    unfolding e by (simp add: cells_JArr)
  finally show ?case .
next
  case (JObj kts)
  from JObj.prems obtain n' where n: "n = Suc n'" and n': "ncellsl (map snd kts) \<le> n'"
    by (cases n) (simp_all add: ncellsl_def comp_def)
  let ?ts = "map snd kts"
  let ?ks = "map fst kts"
  let ?c = "Cell False (zip ?ks (roots ?ts (length pre)))"
  let ?S = "pre @ cells_at (JObj kts) (length pre) @ ext"
  have S: "?S = (pre @ cellsl ?ts (length pre)) @ [?c] @ ext" by (simp add: cells_JObj)
  have l: "length (pre @ cellsl ?ts (length pre)) = length pre + ncellsl ?ts" by simp
  have c: "?S ! (length pre + ncellsl ?ts) = ?c" and b: "length pre + ncellsl ?ts < length ?S"
    unfolding S by (rule node_cell [OF l])+
  have fuel: "\<forall>t\<in>set ?ts. ncells t \<le> n'" using n' ncells_le_ncellsl by fastforce
  have ih: "\<And>t n pre ext. t \<in> set ?ts \<Longrightarrow> ncells t \<le> n \<Longrightarrow>
            traverse n m (root_at t (length pre)) (pre @ cells_at t (length pre) @ ext)
            = Some (pre @ cells_at (expected m t) (length pre) @ ext)"
    using JObj.IH by auto
  have loop: "traverse_keys n' m (length pre + ncellsl [] + ncellsl ?ts)
           [length ([]::json list)..<length ([]::json list) + length ?ts]
           (pre @ cellsl [] (length pre) @ cellsl ?ts (length pre + ncellsl [])
            @ [Cell False (zip ([] @ ?ks)
                         (roots [] (length pre) @ roots ?ts (length pre + ncellsl [])))]
            @ ext)
         = Some (pre @ cellsl [] (length pre)
                 @ cellsl (exp_children m ?ks ?ts) (length pre + ncellsl [])
                 @ [Cell False (zip ([] @ ?ks)
                              (roots [] (length pre)
                               @ roots (exp_children m ?ks ?ts) (length pre + ncellsl [])))]
                 @ ext)"
    by (rule traverse_children [OF ih]) (simp_all add: fuel)
  let ?es = "exp_children m ?ks ?ts"
  have e: "expected m (JObj kts) = JObj (zip ?ks ?es)"
    by (simp add: exp_children_props)
  have le: "length ?es = length kts" by simp
  have fs: "map fst (zip ?ks ?es) = ?ks" and sn: "map snd (zip ?ks ?es) = ?es"
    using le by simp_all
  have "traverse n m (root_at (JObj kts) (length pre)) ?S
        = traverse_keys n' m (length pre + ncellsl ?ts) [0..<length kts] ?S"
    using b c by (simp add: n root_JObj)
  also have "\<dots> = Some (pre @ cellsl ?es (length pre)
                 @ [Cell False (zip ?ks (roots ?es (length pre)))] @ ext)"
    using loop by (simp add: cells_JObj)
  also have "\<dots> = Some (pre @ cells_at (expected m (JObj kts)) (length pre) @ ext)"
    unfolding e cells_JObj fs sn by simp
  finally show ?case .
qed simp_all

lemma stringify_ref_node:
  "stringify n st (VRef a) = Some t \<Longrightarrow> (\<exists>ts. t = JArr ts) \<or> (\<exists>kts. t = JObj kts)"
  by (cases n) (auto split: if_splits option.splits)

lemma root_expected_of_ref:
  assumes "stringify n st (VRef a) = Some t"
  shows "root_at (expected m t) b = root_at t b"
  using stringify_ref_node [OF assms] root_node_expected by auto

lemma truncateAudioData_object:
  assumes "stringify (length st) st (VRef a) = Some t"
  shows "truncateAudioData (VRef a) m st
         = Some (fst (parse_at t (length st)), st @ snd (parse_at (expected m t) (length st)))"
proof -
  have len: "length (snd (parse_at t (length st))) = ncells t"
    using cells_length [of t "length st"] by (simp add: cells_at_def)
  have "traverse (length (st @ cells_at t (length st))) m (root_at t (length st))
          (st @ cells_at t (length st) @ [])
        = Some (st @ cells_at (expected m t) (length st) @ [])"
    by (rule traverse_cells) simp
  then have "traverse (length st + ncells t) m (fst (parse_at t (length st)))
               (st @ snd (parse_at t (length st)))
             = Some (st @ snd (parse_at (expected m t) (length st)))"
    by (simp add: root_at_def cells_at_def len)
  with len show ?thesis
    using assms by (simp add: truncateAudioData_def case_prod_beta)
qed

lemma truncateAudioData_frame:
  fixes m :: nat
  assumes s: "stringify (length st) st (VRef a) = Some t"
  defines "st' \<equiv> st @ snd (parse_at (expected m t) (length st))"
  shows "take (length st) st' = st"
    and "stringify (length st') st' (VRef a) = Some t"
    and "stringify (length st') st' (fst (parse_at t (length st))) = Some (expected m t)"
proof -
  have lx: "length (snd (parse_at (expected m t) (length st))) = ncells t"
    using cells_length [of "expected m t" "length st"] by (simp add: cells_at_def)
  then have len: "length st' = length st + ncells t"
    by (simp add: st'_def)
  show "take (length st) st' = st" by (simp add: st'_def)
  from stringify_mono [OF s, of "ncells t" "snd (parse_at (expected m t) (length st))"]
  show "stringify (length st') st' (VRef a) = Some t" by (simp add: lx st'_def)
  have "stringify (length st') (st @ cells_at (expected m t) (length st) @ [])
          (root_at (expected m t) (length st)) = Some (expected m t)"
    by (rule stringify_cells) (simp add: len)
  then show "stringify (length st') st' (fst (parse_at t (length st))) = Some (expected m t)"
    using root_expected_of_ref [OF s, of m "length st"]
    by (simp add: st'_def cells_at_def root_at_def lx)
qed

lemma truncateAudioData_primitive:
  "\<forall>a. obj \<noteq> VRef a \<Longrightarrow> truncateAudioData obj m st = Some (obj, st)"
  by (cases obj) (simp_all add: truncateAudioData_def)

lemma truncateAudioData_extends:
  assumes "truncateAudioData obj m st = Some (res, st2)"
  shows "take (length st) st2 = st"
proof (cases "\<exists>a. obj = VRef a")
  case False
  then have "truncateAudioData obj m st = Some (obj, st)"
    by (intro truncateAudioData_primitive) simp
  with assms show ?thesis by simp
next
  case True
  then obtain a where a: "obj = VRef a" by blast
  show ?thesis
  proof (cases "stringify (length st) st (VRef a)")
    case None
    with assms show ?thesis by (simp add: a truncateAudioData_def)
  next
    case (Some t)
    from truncateAudioData_object [OF Some, of m] assms show ?thesis
      by (auto simp add: a)
  qed
qed

lemma clone_is_fresh:
  assumes "stringify n st (VRef a) = Some t"
  shows "\<exists>c. root_at t b = VRef c \<and> b \<le> c"
  using stringify_ref_node [OF assms] by (auto simp add: root_JArr root_JObj)

text \<open>
  Claim C10, as amended.  \<open>truncateAudioData\<close> never changes the object graph it is
  given.  A value that is not an object is returned as it is, and the store is left alone.
  For an object that \<open>JSON.stringify\<close> serialises to the tree \<open>t\<close>, the call returns a
  reference to cells newly allocated behind the old store; the old store is a prefix of the
  new one, and the argument still serialises to \<open>t\<close>.  The result serialises to
  \<open>expected m t\<close>: in it, exactly the strings under the keys \<open>data\<close>, \<open>audio\<close> and
  \<open>audioData\<close> that are longer than \<open>m\<close> and start with a character of the base64
  alphabet are replaced by their first \<open>m\<close> characters and the marker, and every other
  field is equal to the corresponding field of the serialisation \<open>t\<close> of the input (in
  which an \<open>undefined\<close> element of an array is \<open>null\<close> and an \<open>undefined\<close> property
  is absent).  Whenever the call returns, the old store is a prefix of the new one.
\<close>

theorem C10_truncateAudioData:
  fixes m :: nat
  shows "((\<forall>a. obj \<noteq> VRef a) \<longrightarrow> truncateAudioData obj m st = Some (obj, st))
    \<and> (stringify (length st) st (VRef a) = Some t \<longrightarrow>
         (let st' = st @ cells_at (expected m t) (length st) in
            truncateAudioData (VRef a) m st = Some (root_at t (length st), st')
          \<and> (\<exists>c. root_at t (length st) = VRef c \<and> length st \<le> c)
          \<and> take (length st) st' = st
          \<and> stringify (length st') st' (VRef a) = Some t
          \<and> stringify (length st') st' (root_at t (length st)) = Some (expected m t)))
    \<and> (truncateAudioData obj m st = Some (res, st_out) \<longrightarrow> take (length st) st_out = st)"
proof (intro conjI impI)
  assume "\<forall>a. obj \<noteq> VRef a"
  then show "truncateAudioData obj m st = Some (obj, st)" by (rule truncateAudioData_primitive)
next
  assume s: "stringify (length st) st (VRef a) = Some t"
  show "let st' = st @ cells_at (expected m t) (length st) in
            truncateAudioData (VRef a) m st = Some (root_at t (length st), st')
          \<and> (\<exists>c. root_at t (length st) = VRef c \<and> length st \<le> c)
          \<and> take (length st) st' = st
          \<and> stringify (length st') st' (VRef a) = Some t
          \<and> stringify (length st') st' (root_at t (length st)) = Some (expected m t)"
    unfolding Let_def cells_at_def root_at_def
    using truncateAudioData_object [OF s, of m] truncateAudioData_frame [OF s, of m]
      clone_is_fresh [OF s, of "length st"]
    by (simp add: root_at_def)
next
  assume "truncateAudioData obj m st = Some (res, st_out)"
  then show "take (length st) st_out = st" by (rule truncateAudioData_extends)
qed

theorem C10_truncateAudioData_witness:
  "truncateAudioData (VStr ''data'') 4 server_message = Some (VStr ''data'', server_message)
   \<and> stringify (length server_message) server_message (VRef 2) = Some server_message_json
   \<and> truncateAudioData (VRef 2) 4 server_message
       = Some (VRef 6, server_message @ truncated_copy)
   \<and> take (length server_message) (server_message @ truncated_copy) = server_message
   \<and> stringify 7 (server_message @ truncated_copy) (VRef 2) = Some server_message_json
   \<and> stringify 7 (server_message @ truncated_copy) (VRef 6)
       = Some (expected 4 server_message_json)"
proof -
  have s: "stringify (length server_message) server_message (VRef 2) = Some server_message_json"
    by code_simp
  have c: "cells_at (expected 4 server_message_json) (length server_message) = truncated_copy"
    by code_simp
  have r: "root_at server_message_json (length server_message) = VRef 6"
    by code_simp
  have l: "length (server_message @ truncated_copy) = 7"
    by code_simp
  have p: "\<forall>a. VStr ''data'' \<noteq> VRef a" by simp
  note inst = C10_truncateAudioData [where obj = "VStr ''data''" and m = 4
      and st = server_message and a = 2 and t = server_message_json
      and res = "VStr ''data''" and st_out = server_message]
  from inst p have 1: "truncateAudioData (VStr ''data'') 4 server_message
      = Some (VStr ''data'', server_message)"
    by (rule conjunct1 [THEN mp])
  from inst have "stringify (length server_message) server_message (VRef 2)
       = Some server_message_json \<longrightarrow>
         (let st' = server_message @ cells_at (expected 4 server_message_json) (length server_message) in
            truncateAudioData (VRef 2) 4 server_message
              = Some (root_at server_message_json (length server_message), st')
          \<and> (\<exists>c. root_at server_message_json (length server_message) = VRef c
                 \<and> length server_message \<le> c)
          \<and> take (length server_message) st' = server_message
          \<and> stringify (length st') st' (VRef 2) = Some server_message_json
          \<and> stringify (length st') st' (root_at server_message_json (length server_message))
              = Some (expected 4 server_message_json))"
    by (rule conjunct2 [THEN conjunct1])
  with s have 2: "truncateAudioData (VRef 2) 4 server_message
              = Some (VRef 6, server_message @ truncated_copy)
          \<and> take (length server_message) (server_message @ truncated_copy) = server_message
          \<and> stringify 7 (server_message @ truncated_copy) (VRef 2) = Some server_message_json
          \<and> stringify 7 (server_message @ truncated_copy) (VRef 6)
              = Some (expected 4 server_message_json)"
    unfolding Let_def c r l by blast
  from inst 1 have "take (length server_message) server_message = server_message"
    by (rule conjunct2 [THEN conjunct2, THEN mp])
  from 1 s 2 show ?thesis by blast
qed

text \<open>
  Claim C10 as stated fails on the array \<open>[undefined]\<close>: element \<open>0\<close> of the result is
  \<open>null\<close>, element \<open>0\<close> of the input is \<open>undefined\<close>, and \<open>0\<close> is none of the three
  keys.
\<close>

theorem C10_counterexample:
  "truncateAudioData (VRef 0) 100 undefined_element
     = Some (VRef 1, undefined_element @ [Cell True [(''0'', VNull)]])
   \<and> read_prop undefined_element (VRef 0) ''0'' = VUndefined
   \<and> read_prop (undefined_element @ [Cell True [(''0'', VNull)]]) (VRef 1) ''0'' = VNull
   \<and> \<not> is_target_key ''0''"
  by code_simp

end
